theory Spec2Isabelle
  imports Main "HOL-Library.AList" "HOL-Library.Sublist"
begin

section \<open>Telegram business store: data model\<close>

text \<open>
  The embedding follows \<open>message-store.ts\<close>, \<open>connection-store.ts\<close> and \<open>types.ts\<close>.
  JavaScript numbers that hold ids, counts and timestamps are modelled as \<open>int\<close>; an
  optional property (\<open>field?: T\<close>) is an \<open>option\<close>, \<open>None\<close> standing for a key that is
  absent or \<open>undefined\<close>. A file is its content, \<open>None\<close> when reading it throws (the file
  does not exist). \<open>JSON.parse\<close>, \<open>JSON.stringify\<close>, \<open>toLowerCase\<close>, \<open>Number\<close> and
  \<open>Date.now\<close> are library functions of the runtime; they are parameters of the model.
\<close>

datatype direction = Incoming | Outgoing

datatype event = New | Edited | Deleted

record StoredBusinessMessage =
  messageId :: int
  date :: int
  storedAt :: int
  fromId :: int
  fromFirstName :: string
  fromLastName :: "string option"
  fromUsername :: "string option"
  msg_text :: "string option"
  caption :: "string option"
  direction :: direction
  replyToMessageId :: "int option"
  businessConnectionId :: string
  event :: event
  deletedMessageIds :: "int list option"

text \<open>
  \<open>StoredChatMeta\<close>. The name fields and \<open>lastMessageAt\<close> are options because the
  object spread of \<open>updateChatMeta\<close> can store \<open>undefined\<close> in any of them, and
  \<open>JSON.stringify\<close> then leaves the key out of \<open>meta.json\<close>.
\<close>

record StoredChatMeta =
  chatId :: int
  firstName :: "string option"
  lastName :: "string option"
  username :: "string option"
  lastMessageAt :: "int option"
  messageCount :: int

text \<open>
  The \<open>partial\<close> argument of \<open>updateChatMeta\<close>: for every key, \<open>None\<close> when the object
  does not have the key, \<open>Some None\<close> when it has the key with value \<open>undefined\<close>, and
  \<open>Some (Some v)\<close> when it has the key with value \<open>v\<close>.
\<close>

record ChatMetaPartial =
  p_chatId :: "int option"
  p_firstName :: "string option option"
  p_lastName :: "string option option"
  p_username :: "string option option"
  p_lastMessageAt :: "int option option"
  incrementCount :: "bool option"

record ConnectionRights =
  canReply :: "bool option"
  canReadMessages :: "bool option"
  canDeleteOutgoingMessages :: "bool option"
  canDeleteAllMessages :: "bool option"

record StoredBusinessConnection =
  conn_id :: string
  userId :: int
  userChatId :: int
  conn_firstName :: string
  conn_lastName :: "string option"
  conn_username :: "string option"
  conn_date :: int
  isEnabled :: bool
  rights :: "ConnectionRights option"
  updatedAt :: int

text \<open>
  \<open>loadBusinessConnections\<close> inspects the parsed document before trusting its type:
  it compares \<open>version\<close> with \<open>1\<close> and tests \<open>connections\<close> for truthiness. The two
  properties are therefore modelled with the values the test can meet: a scalar
  (\<open>undefined\<close> for an absent key), or, for \<open>connections\<close>, a map of connection records
  in the enumeration order of \<open>Object.values\<close>.
\<close>

datatype jsscalar = JUndefined | JNull | JBool bool | JNum int | JStr string

datatype connections_value =
  ConnMap "(string \<times> StoredBusinessConnection) list"
  | ConnOther jsscalar

record BusinessConnectionStore =
  version :: jsscalar
  connections :: connections_value

record chat_store =
  messages_file :: "string option"
  meta_file :: "string option"

record load_opts =
  limit :: "int option"
  before :: "int option"
  after :: "int option"

record prune_opts =
  maxMessages :: "int option"
  maxAgeDays :: "int option"

record search_opts =
  so_chatId :: "int option"
  so_limit :: "int option"


section \<open>Append\<close>

definition newline :: char where
  "newline = CHR 0x0A"

text \<open>\<open>fs.appendFileSync(filePath, JSON.stringify(msg) + "\n")\<close>; a missing file is created.\<close>

definition appendBusinessMessage ::
  "(StoredBusinessMessage \<Rightarrow> string) \<Rightarrow> StoredBusinessMessage \<Rightarrow> string option \<Rightarrow> string option"
where
  "appendBusinessMessage stringify msg file =
     Some ((case file of None \<Rightarrow> [] | Some content \<Rightarrow> content) @ stringify msg @ [newline])"

text \<open>
  The marker of \<open>appendDeletionMarker\<close>; \<open>now_date\<close> and \<open>now_stored\<close> are the two
  readings of \<open>Date.now()\<close>, and \<open>Math.floor(x / 1000)\<close> is \<open>x div 1000\<close>.
\<close>

definition deletion_marker :: "int \<Rightarrow> int \<Rightarrow> int list \<Rightarrow> string \<Rightarrow> StoredBusinessMessage" where
  "deletion_marker now_date now_stored messageIds bcid =
     \<lparr> messageId = 0, date = now_date div 1000, storedAt = now_stored, fromId = 0,
       fromFirstName = [], fromLastName = None, fromUsername = None, msg_text = None,
       caption = None, direction = Incoming, replyToMessageId = None,
       businessConnectionId = bcid, event = Deleted, deletedMessageIds = Some messageIds \<rparr>"

definition appendDeletionMarker ::
  "(StoredBusinessMessage \<Rightarrow> string) \<Rightarrow> int \<Rightarrow> int \<Rightarrow> int list \<Rightarrow> string \<Rightarrow> string option
     \<Rightarrow> string option"
where
  "appendDeletionMarker stringify now_date now_stored messageIds bcid file =
     appendBusinessMessage stringify (deletion_marker now_date now_stored messageIds bcid) file"


section \<open>Read\<close>

text \<open>\<open>raw.split("\n")\<close>: the pieces between newlines, one more than there are newlines.\<close>

fun split_lines :: "string \<Rightarrow> string list" where
  "split_lines [] = [[]]"
| "split_lines (c # cs) =
     (if c = newline then [] # split_lines cs
      else (case split_lines cs of [] \<Rightarrow> [[c]] | l # ls \<Rightarrow> (c # l) # ls))"

text \<open>White space that \<open>trim\<close> removes, among the characters of a byte string.\<close>

definition is_ws :: "char \<Rightarrow> bool" where
  "is_ws c = (c \<in> set [CHR 0x09, CHR 0x0A, CHR 0x0B, CHR 0x0C, CHR 0x0D, CHR 0x20])"

definition trim :: "string \<Rightarrow> string" where
  "trim l = rev (dropWhile is_ws (rev (dropWhile is_ws l)))"

text \<open>The loop over the lines: a line that \<open>JSON.parse\<close> rejects is skipped.\<close>

fun parse_lines :: "(string \<Rightarrow> StoredBusinessMessage option) \<Rightarrow> string list \<Rightarrow> StoredBusinessMessage list" where
  "parse_lines parse [] = []"
| "parse_lines parse (line # lines) =
     (case parse line of
        Some r \<Rightarrow> r # parse_lines parse lines
      | None \<Rightarrow> parse_lines parse lines)"

definition readJsonl :: "(string \<Rightarrow> StoredBusinessMessage option) \<Rightarrow> string option \<Rightarrow> StoredBusinessMessage list" where
  "readJsonl parse file =
     (case file of
        None \<Rightarrow> []
      | Some raw \<Rightarrow> parse_lines parse (filter (\<lambda>l. trim l \<noteq> []) (split_lines raw)))"


section \<open>Deduplication\<close>

text \<open>First loop of \<open>deduplicateMessages\<close>: the set of ids named by deletion markers.\<close>

definition add_deleted :: "StoredBusinessMessage \<Rightarrow> int set \<Rightarrow> int set" where
  "add_deleted r deletedIds =
     (if event r = Deleted
      then (case deletedMessageIds r of
              Some ids \<Rightarrow> fold insert ids deletedIds
            | None \<Rightarrow> deletedIds)
      else deletedIds)"

definition collect_deleted :: "StoredBusinessMessage list \<Rightarrow> int set" where
  "collect_deleted records = fold add_deleted records {}"

text \<open>
  Second loop: \<open>byId\<close> is a \<open>Map\<close>, which iterates in the order in which keys were first
  set; \<open>AList.update\<close> replaces the value of a key in place and appends a new key.
\<close>

definition set_by_id ::
  "int set \<Rightarrow> StoredBusinessMessage \<Rightarrow> (int \<times> StoredBusinessMessage) list \<Rightarrow> (int \<times> StoredBusinessMessage) list"
where
  "set_by_id deletedIds r byId =
     (if event r = Deleted then byId
      else if messageId r \<in> deletedIds then byId
      else AList.update (messageId r) r byId)"

text \<open>The comparator \<open>(a, b) => a.date - b.date || a.messageId - b.messageId\<close>.\<close>

definition compare_messages :: "StoredBusinessMessage \<Rightarrow> StoredBusinessMessage \<Rightarrow> int" where
  "compare_messages a b =
     (if date a - date b \<noteq> 0 then date a - date b else messageId a - messageId b)"

text \<open>
  \<open>toSorted\<close> is a stable sort: insertion from the right, an element going before the
  first one it does not exceed.
\<close>

fun insert_sorted :: "StoredBusinessMessage \<Rightarrow> StoredBusinessMessage list \<Rightarrow> StoredBusinessMessage list" where
  "insert_sorted x [] = [x]"
| "insert_sorted x (y # ys) =
     (if compare_messages x y \<le> 0 then x # y # ys else y # insert_sorted x ys)"

definition toSorted :: "StoredBusinessMessage list \<Rightarrow> StoredBusinessMessage list" where
  "toSorted xs = foldr insert_sorted xs []"

definition deduplicateMessages :: "StoredBusinessMessage list \<Rightarrow> StoredBusinessMessage list" where
  "deduplicateMessages records =
     (let deletedIds = collect_deleted records;
          byId = fold (set_by_id deletedIds) records []
      in toSorted (map snd byId))"


section \<open>Loading a page of messages\<close>

text \<open>\<open>messages.slice(-n)\<close> for a positive integer \<open>n\<close>: the last \<open>n\<close> elements.\<close>

definition slice_last :: "int \<Rightarrow> 'a list \<Rightarrow> 'a list" where
  "slice_last n xs = drop (length xs - nat n) xs"

definition loadChatMessages ::
  "(string \<Rightarrow> StoredBusinessMessage option) \<Rightarrow> string option \<Rightarrow> load_opts option
     \<Rightarrow> StoredBusinessMessage list"
where
  "loadChatMessages parse file opts =
     (let raw = readJsonl parse file;
          messages = deduplicateMessages raw;
          messages = (case Option.bind opts after of
                        Some a \<Rightarrow> filter (\<lambda>m. messageId m > a) messages
                      | None \<Rightarrow> messages);
          messages = (case Option.bind opts before of
                        Some b \<Rightarrow> filter (\<lambda>m. messageId m < b) messages
                      | None \<Rightarrow> messages);
          lim = (case Option.bind opts limit of Some l \<Rightarrow> l | None \<Rightarrow> 50)
      in if lim > 0 \<and> int (length messages) > lim then slice_last lim messages else messages)"


section \<open>Chat metadata\<close>

definition default_meta :: "int \<Rightarrow> StoredChatMeta" where
  "default_meta cid =
     \<lparr> chatId = cid, firstName = Some [], lastName = None, username = None,
       lastMessageAt = Some 0, messageCount = 0 \<rparr>"

definition read_meta :: "(string \<Rightarrow> StoredChatMeta option) \<Rightarrow> int \<Rightarrow> string option \<Rightarrow> StoredChatMeta" where
  "read_meta parse_meta cid file =
     (case file of
        None \<Rightarrow> default_meta cid
      | Some raw \<Rightarrow> (case parse_meta raw of None \<Rightarrow> default_meta cid | Some m \<Rightarrow> m))"

text \<open>One key of the spread \<open>{...existing, ...rest}\<close>: a key that \<open>rest\<close> has wins.\<close>

definition spread :: "'a \<Rightarrow> 'a option \<Rightarrow> 'a" where
  "spread existing_value rest_value =
     (case rest_value of None \<Rightarrow> existing_value | Some v \<Rightarrow> v)"

definition updated_meta :: "int \<Rightarrow> ChatMetaPartial \<Rightarrow> StoredChatMeta \<Rightarrow> StoredChatMeta" where
  "updated_meta cid partial existing =
     \<lparr> chatId = cid,
       firstName = spread (firstName existing) (p_firstName partial),
       lastName = spread (lastName existing) (p_lastName partial),
       username = spread (username existing) (p_username partial),
       lastMessageAt = spread (lastMessageAt existing) (p_lastMessageAt partial),
       messageCount = (if incrementCount partial = Some True
                       then messageCount existing + 1 else messageCount existing) \<rparr>"

definition updateChatMeta ::
  "(string \<Rightarrow> StoredChatMeta option) \<Rightarrow> (StoredChatMeta \<Rightarrow> string) \<Rightarrow> int \<Rightarrow> ChatMetaPartial
     \<Rightarrow> chat_store \<Rightarrow> chat_store"
where
  "updateChatMeta parse_meta stringify_meta cid partial s =
     (let existing = read_meta parse_meta cid (meta_file s);
          updated = updated_meta cid partial existing
      in s\<lparr>meta_file := Some (stringify_meta updated)\<rparr>)"


section \<open>Pruning\<close>

text \<open>\<open>lines.join("\n")\<close>.\<close>

fun join_lines :: "string list \<Rightarrow> string" where
  "join_lines [] = []"
| "join_lines [l] = l"
| "join_lines (l # l' # ls) = l @ [newline] @ join_lines (l' # ls)"

text \<open>\<open>opts.maxMessages || 0\<close>: an absent limit and the limit \<open>0\<close> are both \<open>0\<close>.\<close>

definition or_zero :: "int option \<Rightarrow> int" where
  "or_zero v = (case v of None \<Rightarrow> 0 | Some n \<Rightarrow> n)"

text \<open>
  The part of \<open>maybePruneChatMessages\<close> before the first write: \<open>None\<close> when the
  function returns without writing, \<open>Some messages\<close> when it goes on to rewrite the
  log with the retained \<open>messages\<close>. \<open>now\<close> is \<open>Date.now()\<close>.
\<close>

definition prune_retained ::
  "int \<Rightarrow> prune_opts \<Rightarrow> StoredBusinessMessage list \<Rightarrow> StoredBusinessMessage list option"
where
  "prune_retained now opts raw =
     (let maxM = or_zero (maxMessages opts);
          maxA = or_zero (maxAgeDays opts)
      in if maxM \<le> 0 \<and> maxA \<le> 0 then None
         else if length raw = 0 then None
         else if maxM > 0 \<and> int (length raw) \<le> maxM \<and> maxA \<le> 0 then None
         else
           (let messages = deduplicateMessages raw;
                messages = (if maxA > 0
                            then filter (\<lambda>m. date m \<ge> now div 1000 - maxA * 86400) messages
                            else messages);
                messages = (if maxM > 0 \<and> int (length messages) > maxM
                            then slice_last maxM messages else messages)
            in if length messages \<ge> length raw then None else Some messages))"

text \<open>The rewrite of the log, and the synchronisation of \<open>messageCount\<close> in \<open>meta.json\<close>.\<close>

definition sync_meta ::
  "(string \<Rightarrow> StoredChatMeta option) \<Rightarrow> (StoredChatMeta \<Rightarrow> string) \<Rightarrow> int \<Rightarrow> string option
     \<Rightarrow> string option"
where
  "sync_meta parse_meta stringify_meta n file =
     (case file of
        None \<Rightarrow> None
      | Some metaRaw \<Rightarrow>
          (case parse_meta metaRaw of
             None \<Rightarrow> Some metaRaw
           | Some meta \<Rightarrow> Some (stringify_meta (meta\<lparr>messageCount := n\<rparr>))))"

definition maybePruneChatMessages ::
  "(string \<Rightarrow> StoredBusinessMessage option) \<Rightarrow> (StoredBusinessMessage \<Rightarrow> string)
     \<Rightarrow> (string \<Rightarrow> StoredChatMeta option) \<Rightarrow> (StoredChatMeta \<Rightarrow> string)
     \<Rightarrow> int \<Rightarrow> prune_opts \<Rightarrow> chat_store \<Rightarrow> chat_store"
where
  "maybePruneChatMessages parse stringify parse_meta stringify_meta now opts s =
     (case prune_retained now opts (readJsonl parse (messages_file s)) of
        None \<Rightarrow> s
      | Some messages \<Rightarrow>
          \<lparr> messages_file = Some (join_lines (map stringify messages) @ [newline]),
            meta_file = sync_meta parse_meta stringify_meta (int (length messages)) (meta_file s) \<rparr>)"


section \<open>Search\<close>

text \<open>\<open>text.includes(lowerQuery)\<close>: the query occurs at some position of the text.\<close>

fun string_includes :: "string \<Rightarrow> string \<Rightarrow> bool" where
  "string_includes [] q = (q = [])"
| "string_includes (c # cs) q = (prefix q (c # cs) \<or> string_includes cs q)"

text \<open>\<open>m.text ?? m.caption ?? ""\<close>.\<close>

definition searchable_text :: "StoredBusinessMessage \<Rightarrow> string" where
  "searchable_text m =
     (case msg_text m of
        Some t \<Rightarrow> t
      | None \<Rightarrow> (case caption m of Some c \<Rightarrow> c | None \<Rightarrow> []))"

text \<open>
  The inner loop over the canonical messages of one chat. A result
  \<open>{ ...m, chatId: cid }\<close> is the pair of the message and the chat id.
\<close>

fun search_messages ::
  "(string \<Rightarrow> string) \<Rightarrow> string \<Rightarrow> int \<Rightarrow> int \<Rightarrow> StoredBusinessMessage list
     \<Rightarrow> (StoredBusinessMessage \<times> int) list \<Rightarrow> (StoredBusinessMessage \<times> int) list"
where
  "search_messages toLowerCase lowerQuery lim cid [] results = results"
| "search_messages toLowerCase lowerQuery lim cid (m # ms) results =
     (if int (length results) \<ge> lim then results
      else if string_includes (toLowerCase (searchable_text m)) lowerQuery
           then search_messages toLowerCase lowerQuery lim cid ms (results @ [(m, cid)])
           else search_messages toLowerCase lowerQuery lim cid ms results)"

text \<open>The outer loop over the chat ids; \<open>files cid\<close> is the log of chat \<open>cid\<close>.\<close>

fun search_chats ::
  "(string \<Rightarrow> string) \<Rightarrow> (string \<Rightarrow> StoredBusinessMessage option) \<Rightarrow> (int \<Rightarrow> string option)
     \<Rightarrow> string \<Rightarrow> int \<Rightarrow> int list
     \<Rightarrow> (StoredBusinessMessage \<times> int) list \<Rightarrow> (StoredBusinessMessage \<times> int) list"
where
  "search_chats toLowerCase parse files lowerQuery lim [] results = results"
| "search_chats toLowerCase parse files lowerQuery lim (cid # cids) results =
     (if int (length results) \<ge> lim then results
      else search_chats toLowerCase parse files lowerQuery lim cids
             (search_messages toLowerCase lowerQuery lim cid
                (deduplicateMessages (readJsonl parse (files cid))) results))"

text \<open>
  The chat ids to search: the one given, or every entry of the \<open>chats\<close> directory
  whose name \<open>Number\<close> turns into a finite number (\<open>toNumber\<close> is \<open>None\<close> otherwise).
  \<open>entries\<close> is \<open>None\<close> when \<open>readdirSync\<close> throws.
\<close>

fun finite_entries :: "(string \<Rightarrow> int option) \<Rightarrow> string list \<Rightarrow> int list" where
  "finite_entries toNumber [] = []"
| "finite_entries toNumber (e # es) =
     (case toNumber e of
        Some parsed \<Rightarrow> parsed # finite_entries toNumber es
      | None \<Rightarrow> finite_entries toNumber es)"

definition search_chat_ids ::
  "(string \<Rightarrow> int option) \<Rightarrow> string list option \<Rightarrow> search_opts option \<Rightarrow> int list option"
where
  "search_chat_ids toNumber entries opts =
     (case Option.bind opts so_chatId of
        Some c \<Rightarrow> Some [c]
      | None \<Rightarrow> (case entries of None \<Rightarrow> None | Some es \<Rightarrow> Some (finite_entries toNumber es)))"

definition searchBusinessMessages ::
  "(string \<Rightarrow> string) \<Rightarrow> (string \<Rightarrow> StoredBusinessMessage option) \<Rightarrow> (string \<Rightarrow> int option)
     \<Rightarrow> string list option \<Rightarrow> (int \<Rightarrow> string option) \<Rightarrow> string \<Rightarrow> search_opts option
     \<Rightarrow> (StoredBusinessMessage \<times> int) list"
where
  "searchBusinessMessages toLowerCase parse toNumber entries files query opts =
     (let lowerQuery = toLowerCase query;
          lim = (case Option.bind opts so_limit of Some l \<Rightarrow> l | None \<Rightarrow> 20)
      in case search_chat_ids toNumber entries opts of
           None \<Rightarrow> []
         | Some chatIds \<Rightarrow> search_chats toLowerCase parse files lowerQuery lim chatIds [])"


section \<open>Connection registry\<close>

definition empty_store :: BusinessConnectionStore where
  "empty_store = \<lparr> version = JNum 1, connections = ConnMap [] \<rparr>"

text \<open>Truthiness of the \<open>connections\<close> property: an object is truthy.\<close>

fun truthy_scalar :: "jsscalar \<Rightarrow> bool" where
  "truthy_scalar JUndefined = False"
| "truthy_scalar JNull = False"
| "truthy_scalar (JBool b) = b"
| "truthy_scalar (JNum n) = (n \<noteq> 0)"
| "truthy_scalar (JStr s) = (s \<noteq> [])"

fun truthy_connections :: "connections_value \<Rightarrow> bool" where
  "truthy_connections (ConnMap m) = True"
| "truthy_connections (ConnOther v) = truthy_scalar v"

text \<open>
  \<open>parse_store raw\<close> is \<open>None\<close> when the \<open>try\<close> block throws: \<open>JSON.parse\<close> rejects the
  text, or the document is \<open>null\<close> and reading its \<open>version\<close> throws.
\<close>

definition loadBusinessConnections ::
  "(string \<Rightarrow> BusinessConnectionStore option) \<Rightarrow> string option \<Rightarrow> BusinessConnectionStore"
where
  "loadBusinessConnections parse_store file =
     (case file of
        None \<Rightarrow> empty_store
      | Some raw \<Rightarrow>
          (case parse_store raw of
             None \<Rightarrow> empty_store
           | Some parsed \<Rightarrow>
               if version parsed = JNum 1 \<and> truthy_connections (connections parsed)
               then parsed else empty_store))"

text \<open>
  \<open>Object.values(store.connections)\<close>. A truthy scalar has no connection record among
  its values (a number or \<open>true\<close> has none, a string has its characters, whose
  \<open>isEnabled\<close> is \<open>undefined\<close>), so the loop below sees nothing enabled in it.
\<close>

fun object_values :: "connections_value \<Rightarrow> StoredBusinessConnection list" where
  "object_values (ConnMap m) = map snd m"
| "object_values (ConnOther v) = []"

fun best_connection ::
  "StoredBusinessConnection option \<Rightarrow> StoredBusinessConnection list \<Rightarrow> StoredBusinessConnection option"
where
  "best_connection best [] = best"
| "best_connection best (conn # conns) =
     (if \<not> isEnabled conn then best_connection best conns
      else (case best of
              None \<Rightarrow> best_connection (Some conn) conns
            | Some b \<Rightarrow>
                if updatedAt conn > updatedAt b then best_connection (Some conn) conns
                else best_connection best conns))"

definition getActiveBusinessConnectionId ::
  "(string \<Rightarrow> BusinessConnectionStore option) \<Rightarrow> string option \<Rightarrow> string option"
where
  "getActiveBusinessConnectionId parse_store file =
     (let store = loadBusinessConnections parse_store file
      in map_option conn_id (best_connection None (object_values (connections store))))"

section \<open>Notions the properties are stated with\<close>

text \<open>
  What the store relies on from \<open>JSON.stringify\<close> and \<open>JSON.parse\<close> for the records
  \<open>ms\<close>: a record is written as one non-blank line without a raw newline, and the
  line parses back to the same record.
\<close>

definition codec_ok ::
  "(string \<Rightarrow> StoredBusinessMessage option) \<Rightarrow> (StoredBusinessMessage \<Rightarrow> string)
     \<Rightarrow> StoredBusinessMessage list \<Rightarrow> bool"
where
  "codec_ok parse stringify ms =
     list_all (\<lambda>m. parse (stringify m) = Some m \<and> newline \<notin> set (stringify m) \<and>
                    trim (stringify m) \<noteq> []) ms"

text \<open>
  A log that only \<open>appendBusinessMessage\<close> and the rewrite of
  \<open>maybePruneChatMessages\<close> have written is absent, empty, or ends with a newline.
\<close>

definition terminated :: "string option \<Rightarrow> bool" where
  "terminated file =
     (case file of None \<Rightarrow> True | Some content \<Rightarrow> content = [] \<or> last content = newline)"

text \<open>A deletion marker names the id \<open>X\<close>.\<close>

definition named_by :: "int \<Rightarrow> StoredBusinessMessage \<Rightarrow> bool" where
  "named_by X r =
     (event r = Deleted \<and> (case deletedMessageIds r of Some ids \<Rightarrow> X \<in> set ids | None \<Rightarrow> False))"

text \<open>
  The non-deletion records, in append order, that no later deletion marker names; and
  the last of them that carries the id \<open>X\<close>.
\<close>

fun surviving :: "StoredBusinessMessage list \<Rightarrow> StoredBusinessMessage list" where
  "surviving [] = []"
| "surviving (r # later) =
     (if event r \<noteq> Deleted \<and> \<not> list_ex (named_by (messageId r)) later
      then r # surviving later else surviving later)"

definition last_surviving :: "int \<Rightarrow> StoredBusinessMessage list \<Rightarrow> StoredBusinessMessage option" where
  "last_surviving X records =
     (let with_id = filter (\<lambda>r. messageId r = X) (surviving records)
      in if with_id = [] then None else Some (last with_id))"

text \<open>The records the second loop of \<open>deduplicateMessages\<close> stores in \<open>byId\<close>.\<close>

definition kept :: "int set \<Rightarrow> StoredBusinessMessage \<Rightarrow> bool" where
  "kept D r = (event r \<noteq> Deleted \<and> messageId r \<notin> D)"

text \<open>The canonical order: ascending date, then ascending message id.\<close>

definition canonical_before :: "StoredBusinessMessage \<Rightarrow> StoredBusinessMessage \<Rightarrow> bool" where
  "canonical_before a b = (date a < date b \<or> (date a = date b \<and> messageId a < messageId b))"

text \<open>
  The bounds and the limit a call of \<open>loadChatMessages\<close> is made with: \<open>opts?.after\<close>,
  \<open>opts?.before\<close>, and \<open>opts?.limit ?? 50\<close>.
\<close>

definition in_window :: "load_opts option \<Rightarrow> StoredBusinessMessage \<Rightarrow> bool" where
  "in_window opts m =
     ((case Option.bind opts after of Some a \<Rightarrow> messageId m > a | None \<Rightarrow> True) \<and>
      (case Option.bind opts before of Some b \<Rightarrow> messageId m < b | None \<Rightarrow> True))"

definition effective_limit :: "load_opts option \<Rightarrow> int" where
  "effective_limit opts = (case Option.bind opts limit of Some l \<Rightarrow> l | None \<Rightarrow> 50)"

text \<open>
  The limit a search is made with (\<open>opts?.limit ?? 20\<close>), and the messages of a chat
  whose text, or caption when the text is absent, contains the query when both are
  lower-cased; a hit carries the id of its chat.
\<close>

definition search_limit :: "search_opts option \<Rightarrow> int" where
  "search_limit opts = (case Option.bind opts so_limit of Some l \<Rightarrow> l | None \<Rightarrow> 20)"

definition contains_query :: "(string \<Rightarrow> string) \<Rightarrow> string \<Rightarrow> StoredBusinessMessage \<Rightarrow> bool" where
  "contains_query toLowerCase query m =
     sublist (toLowerCase query) (toLowerCase (searchable_text m))"

definition chat_hits ::
  "(string \<Rightarrow> string) \<Rightarrow> (string \<Rightarrow> StoredBusinessMessage option) \<Rightarrow> (int \<Rightarrow> string option)
     \<Rightarrow> string \<Rightarrow> int \<Rightarrow> (StoredBusinessMessage \<times> int) list"
where
  "chat_hits toLowerCase parse files query cid =
     map (\<lambda>m. (m, cid))
       (filter (contains_query toLowerCase query) (deduplicateMessages (readJsonl parse (files cid))))"

text \<open>
  \<open>messages.slice(-limit)\<close> under the test of \<open>loadChatMessages\<close>: the last \<open>lim\<close>
  entries when \<open>lim\<close> is positive and more than \<open>lim\<close> are there, all of them otherwise.
\<close>

definition last_limit :: "int \<Rightarrow> 'a list \<Rightarrow> 'a list" where
  "last_limit lim xs =
     (if lim > 0 \<and> int (length xs) > lim then drop (length xs - nat lim) xs else xs)"


section \<open>Sample documents\<close>

text \<open>Concrete stores, logs and codecs on which the theorems below are instantiated.\<close>

definition conn :: "string \<Rightarrow> bool \<Rightarrow> int \<Rightarrow> StoredBusinessConnection" where
  "conn i en upd =
     \<lparr> conn_id = i, userId = 1, userChatId = 1, conn_firstName = ''Op'',
       conn_lastName = None, conn_username = None, conn_date = 0, isEnabled = en,
       rights = None, updatedAt = upd \<rparr>"

definition sample_store :: BusinessConnectionStore where
  "sample_store =
     \<lparr> version = JNum 1,
       connections = ConnMap
         [(''a'', conn ''a'' True 100), (''b'', conn ''b'' True 200), (''c'', conn ''c'' False 300)] \<rparr>"

definition malformed_store :: BusinessConnectionStore where
  "malformed_store = \<lparr> version = JNum 1, connections = ConnOther (JStr ''none'') \<rparr>"

definition sample_parse_store :: "string \<Rightarrow> BusinessConnectionStore option" where
  "sample_parse_store raw =
     (if raw = ''store'' then Some sample_store
      else if raw = ''malformed'' then Some malformed_store
      else None)"

text \<open>A document lacks a connections map when its \<open>connections\<close> value is not a map.\<close>

definition lacks_connections_map :: "BusinessConnectionStore \<Rightarrow> bool" where
  "lacks_connections_map p = (case connections p of ConnMap m \<Rightarrow> False | ConnOther v \<Rightarrow> True)"

definition sample_message :: "int \<Rightarrow> int \<Rightarrow> event \<Rightarrow> string option \<Rightarrow> StoredBusinessMessage" where
  "sample_message i d e t =
     \<lparr> messageId = i, date = d, storedAt = 1000 * d, fromId = 7, fromFirstName = ''Ann'',
       fromLastName = None, fromUsername = None, msg_text = t, caption = None,
       direction = Incoming, replyToMessageId = None, businessConnectionId = ''bc'',
       event = e, deletedMessageIds = None \<rparr>"

definition sample_new :: StoredBusinessMessage where
  "sample_new = sample_message 1 100 New None"

definition sample_edited :: StoredBusinessMessage where
  "sample_edited = sample_message 1 101 Edited (Some ''v2'')"

definition sample_marker :: StoredBusinessMessage where
  "sample_marker = deletion_marker 102000 102000 [1] ''bc''"

definition sample_second :: StoredBusinessMessage where
  "sample_second = sample_message 2 103 New (Some ''Hello ABC'')"

text \<open>A codec for the four sample records: each has a line of its own.\<close>

definition sample_stringify :: "StoredBusinessMessage \<Rightarrow> string" where
  "sample_stringify m =
     (if m = sample_new then ''new-1''
      else if m = sample_edited then ''edited-1''
      else if m = sample_marker then ''deleted-1''
      else if m = sample_second then ''new-2''
      else ''other'')"

definition sample_parse :: "string \<Rightarrow> StoredBusinessMessage option" where
  "sample_parse l =
     (if l = ''new-1'' then Some sample_new
      else if l = ''edited-1'' then Some sample_edited
      else if l = ''deleted-1'' then Some sample_marker
      else if l = ''new-2'' then Some sample_second
      else None)"

definition sample_meta :: StoredChatMeta where
  "sample_meta =
     \<lparr> chatId = 42, firstName = Some ''Ann'', lastName = Some ''Smith'', username = None,
       lastMessageAt = Some 100000, messageCount = 3 \<rparr>"

definition sample_parse_meta :: "string \<Rightarrow> StoredChatMeta option" where
  "sample_parse_meta raw = (if raw = ''meta'' then Some sample_meta else None)"

definition sample_stringify_meta :: "StoredChatMeta \<Rightarrow> string" where
  "sample_stringify_meta m = (if m = sample_meta then ''meta'' else ''meta-updated'')"

definition sample_partial :: ChatMetaPartial where
  "sample_partial =
     \<lparr> p_chatId = Some 7, p_firstName = None, p_lastName = Some None, p_username = None,
       p_lastMessageAt = Some (Some 200000), incrementCount = Some True \<rparr>"

text \<open>A chat whose log holds a message, its edit and a second message.\<close>

definition sample_chat :: chat_store where
  "sample_chat =
     \<lparr> messages_file =
         fold (appendBusinessMessage sample_stringify) [sample_new, sample_edited, sample_second] None,
       meta_file = Some ''meta'' \<rparr>"

text \<open>A chat whose log holds a message, its edit and the marker that deletes it.\<close>

definition sample_deleted_chat :: chat_store where
  "sample_deleted_chat =
     \<lparr> messages_file =
         fold (appendBusinessMessage sample_stringify) [sample_new, sample_edited, sample_marker] None,
       meta_file = Some ''meta'' \<rparr>"

text \<open>Lower-casing of the letters the sample texts use, a directory listing, and its logs.\<close>

definition sample_lower :: "string \<Rightarrow> string" where
  "sample_lower s =
     map (\<lambda>c. if c = CHR ''A'' then CHR ''a'' else if c = CHR ''B'' then CHR ''b''
               else if c = CHR ''C'' then CHR ''c'' else if c = CHR ''H'' then CHR ''h''
               else c) s"

definition sample_number :: "string \<Rightarrow> int option" where
  "sample_number e = (if e = ''42'' then Some 42 else if e = ''43'' then Some 43 else None)"

definition sample_files :: "int \<Rightarrow> string option" where
  "sample_files cid = (if cid = 42 \<or> cid = 43 then messages_file sample_chat else None)"

text \<open>
A log whose second line was cut off before its newline.
\<close>

definition sample_cut_log :: "string option" where
  "sample_cut_log = Some (''new-1'' @ [newline] @ ''partial'')"

text \<open>
A page request that the limit cuts.
\<close>

definition sample_page_opts :: "load_opts option" where
  "sample_page_opts = Some \<lparr>limit = Some 1, before = Some 3, after = Some 0\<rparr>"

text \<open>
A chat whose log holds the later of two messages first.
\<close>

definition sample_late :: StoredBusinessMessage where
  "sample_late = sample_message 5 300 New (Some ''ABC late'')"

definition sample_early :: StoredBusinessMessage where
  "sample_early = sample_message 4 200 New (Some ''early abc'')"

definition unordered_parse :: "string \<Rightarrow> StoredBusinessMessage option" where
  "unordered_parse l =
     (if l = ''late'' then Some sample_late
      else if l = ''early'' then Some sample_early
      else None)"

definition unordered_files :: "int \<Rightarrow> string option" where
  "unordered_files cid =
     (if cid = 44 then Some (''late'' @ [newline] @ ''early'' @ [newline]) else None)"


section \<open>Verified properties\<close>

subsection \<open>Reading back what was appended\<close>

lemma split_lines_not_Nil: "split_lines s \<noteq> []"
  by (induction s) (auto split: list.splits)

lemma split_lines_at_newline: "split_lines (a @ newline # b) = split_lines a @ split_lines b"
proof (induction a)
  case Nil
  then show ?case by simp
next
  case (Cons c a)
  show ?case
  proof (cases "c = newline")
    case True
    with Cons show ?thesis by simp
  next
    case False
    obtain l ls where l: "split_lines a = l # ls"
      using split_lines_not_Nil[of a] by (cases "split_lines a") auto
    with False Cons show ?thesis by simp
  qed
qed

lemma split_lines_single: "newline \<notin> set s \<Longrightarrow> split_lines s = [s]"
  by (induction s) auto

lemma trim_Nil: "trim [] = []"
  by (simp add: trim_def)

lemma split_lines_terminated:
  "split_lines (c @ [newline]) = split_lines c @ [[]]"
  using split_lines_at_newline[of c "[]"] by simp

lemma parse_lines_append:
  "parse_lines parse (xs @ ys) = parse_lines parse xs @ parse_lines parse ys"
  by (induction xs) (auto split: option.splits)

lemma nonblank_lines_append_line:
  assumes "content = [] \<or> last content = newline" and "newline \<notin> set s" and "trim s \<noteq> []"
  shows "filter (\<lambda>l. trim l \<noteq> []) (split_lines (content @ s @ [newline]))
           = filter (\<lambda>l. trim l \<noteq> []) (split_lines content) @ [s]"
proof (cases "content = []")
  case True
  with assms show ?thesis
    using split_lines_terminated[of s] by (simp add: split_lines_single trim_Nil)
next
  case False
  with assms(1) obtain c where c: "content = c @ [newline]"
    by (metis append_butlast_last_id)
  have "split_lines (content @ s @ [newline]) = split_lines c @ split_lines (s @ [newline])"
    using split_lines_at_newline[of c "s @ [newline]"] by (simp add: c)
  also have "\<dots> = split_lines c @ [s, []]"
    using assms(2) by (simp add: split_lines_terminated split_lines_single)
  finally have 1: "split_lines (content @ s @ [newline]) = split_lines c @ [s, []]" .
  have 2: "split_lines content = split_lines c @ [[]]"
    by (simp add: c split_lines_terminated)
  show ?thesis using assms(3) by (simp add: 1 2 trim_Nil)
qed

lemma readJsonl_append:
  assumes "codec_ok parse stringify [m]" and "terminated file"
  shows "readJsonl parse (appendBusinessMessage stringify m file) = readJsonl parse file @ [m]"
proof -
  from assms(1) have p: "parse (stringify m) = Some m" and n: "newline \<notin> set (stringify m)"
    and t: "trim (stringify m) \<noteq> []"
    by (simp_all add: codec_ok_def)
  show ?thesis
  proof (cases "file")
    case None
    have "filter (\<lambda>l. trim l \<noteq> []) (split_lines ([] @ stringify m @ [newline])) = 
      filter (\<lambda>l. trim l \<noteq> []) (split_lines []) @ [stringify m]"
      by (rule nonblank_lines_append_line) (use n t in simp_all)
    with None p show ?thesis
      by (simp add: readJsonl_def appendBusinessMessage_def trim_Nil)
  next
    case (Some content)
    with assms(2) have "content = [] \<or> last content = newline" by (simp add: terminated_def)
    from nonblank_lines_append_line[OF this n t] Some p show ?thesis
      by (simp add: readJsonl_def appendBusinessMessage_def parse_lines_append)
  qed
qed

lemma terminated_append: "terminated (appendBusinessMessage stringify m file)"
  by (simp add: terminated_def appendBusinessMessage_def)

lemma codec_ok_append: "codec_ok parse stringify (xs @ ys) \<longleftrightarrow> codec_ok parse stringify xs \<and> codec_ok parse stringify ys"
  by (simp add: codec_ok_def)

lemma codec_ok_Cons: "codec_ok parse stringify (x # xs) \<longleftrightarrow> codec_ok parse stringify [x] \<and> codec_ok parse stringify xs"
  by (simp add: codec_ok_def)

lemma codec_ok_subset: "codec_ok parse stringify xs \<Longrightarrow> set ys \<subseteq> set xs \<Longrightarrow> codec_ok parse stringify ys"
  by (auto simp: codec_ok_def list_all_iff)

lemma readJsonl_appends:
  assumes "codec_ok parse stringify ms" and "terminated file"
  shows "readJsonl parse (fold (appendBusinessMessage stringify) ms file) = readJsonl parse file @ ms"
  using assms
proof (induction ms arbitrary: "file")
  case Nil
  then show ?case by simp
next
  case (Cons m ms)
  from Cons.prems(1) have 1: "codec_ok parse stringify [m]" and 2: "codec_ok parse stringify ms"
    using codec_ok_Cons by blast+
  have "readJsonl parse (fold (appendBusinessMessage stringify) ms (appendBusinessMessage stringify m file))
      = readJsonl parse (appendBusinessMessage stringify m file) @ ms"
    by (rule Cons.IH[OF 2 terminated_append])
  then show ?case using readJsonl_append[OF 1 Cons.prems(2)] by simp
qed

lemma readJsonl_missing: "readJsonl parse None = []"
  by (simp add: readJsonl_def)

lemma join_lines_newline:
  "ls \<noteq> [] \<Longrightarrow> join_lines ls @ [newline] = concat (map (\<lambda>l. l @ [newline]) ls)"
  by (induction ls rule: join_lines.induct) auto

lemma readJsonl_rewritten:
  assumes "codec_ok parse stringify ms"
  shows "readJsonl parse (Some (join_lines (map stringify ms) @ [newline])) = ms"
proof (cases "ms = []")
  case True
  have "split_lines [newline] = [[], []]" by simp
  with True show ?thesis by (simp add: readJsonl_def trim_Nil)
next
  case False
  have "Some (concat (map (\<lambda>l. l @ [newline]) (map stringify ms))) = fold (appendBusinessMessage stringify) ms (Some [])"
  proof -
    have "\<And>c. fold (appendBusinessMessage stringify) ms (Some c) = Some (c @ concat (map (\<lambda>l. l @ [newline]) (map stringify ms)))"
      by (induction ms) (auto simp: appendBusinessMessage_def)
    then show ?thesis by simp
  qed
  with False have "Some (join_lines (map stringify ms) @ [newline]) = fold (appendBusinessMessage stringify) ms (Some [])"
    by (simp add: join_lines_newline)
  moreover have "readJsonl parse (fold (appendBusinessMessage stringify) ms (Some [])) = readJsonl parse (Some []) @ ms"
    by (rule readJsonl_appends[OF assms]) (simp add: terminated_def)
  moreover have "readJsonl parse (Some []) = []" by (simp add: readJsonl_def trim_Nil)
  ultimately show ?thesis by simp
qed


subsection \<open>Deduplication: the two loops\<close>

lemma fold_insert_set: "fold insert ids S = set ids \<union> S"
  by (induction ids arbitrary: S) auto

lemma add_deleted_named: "add_deleted r S = S \<union> {X. named_by X r}"
  by (auto simp: add_deleted_def named_by_def fold_insert_set split: option.splits)

lemma fold_add_deleted: "fold add_deleted rs S = S \<union> {X. \<exists>d\<in>set rs. named_by X d}"
  by (induction rs arbitrary: S) (auto simp: add_deleted_named)

lemma collect_deleted_iff: "X \<in> collect_deleted rs \<longleftrightarrow> (\<exists>d\<in>set rs. named_by X d)"
  by (simp add: collect_deleted_def fold_add_deleted)

lemma set_by_id_kept: "set_by_id D r al = (if kept D r then AList.update (messageId r) r al else al)"
  by (simp add: set_by_id_def kept_def)

lemma fold_snoc: "fold f (xs @ [x]) a = f x (fold f xs a)"
  by simp

lemma by_id_distinct:
  "distinct (map fst al) \<Longrightarrow> distinct (map fst (fold (set_by_id D) rs al))"
  by (induction rs arbitrary: al) (simp_all add: set_by_id_kept distinct_update)

lemma by_id_keys:
  "\<forall>(k, v)\<in>set al. messageId v = k \<Longrightarrow> \<forall>(k, v)\<in>set (fold (set_by_id D) rs al). messageId v = k"
proof (induction rs arbitrary: al)
  case Nil
  then show ?case by simp
next
  case (Cons r rs)
  have "\<forall>(k, v)\<in>set (set_by_id D r al). messageId v = k"
  proof (cases "kept D r")
    case True
    have "set (AList.update (messageId r) r al) \<subseteq> insert (messageId r, r) (set al)"
      by (induction al) auto
    with Cons.prems True show ?thesis by (auto simp: set_by_id_kept)
  next
    case False
    with Cons.prems show ?thesis by (simp add: set_by_id_kept)
  qed
  from Cons.IH[OF this] show ?case by simp
qed

lemma by_id_lookup:
  "map_of (fold (set_by_id D) rs al) X =
     (if filter (\<lambda>r. kept D r \<and> messageId r = X) rs = [] then map_of al X
      else Some (last (filter (\<lambda>r. kept D r \<and> messageId r = X) rs)))"
proof (induction rs rule: rev_induct)
  case Nil
  then show ?case by simp
next
  case (snoc r rs)
  show ?case
  proof (cases "kept D r \<and> messageId r = X")
    case True
    then have "filter (\<lambda>r. kept D r \<and> messageId r = X) (rs @ [r])
                 = filter (\<lambda>r. kept D r \<and> messageId r = X) rs @ [r]" by simp
    moreover have "map_of (fold (set_by_id D) (rs @ [r]) al) X = Some r"
      using True by (simp add: set_by_id_kept update_conv')
    ultimately show ?thesis by simp
  next
    case False
    then have "filter (\<lambda>r. kept D r \<and> messageId r = X) (rs @ [r])
                 = filter (\<lambda>r. kept D r \<and> messageId r = X) rs" by simp
    moreover have "map_of (fold (set_by_id D) (rs @ [r]) al) X = map_of (fold (set_by_id D) rs al) X"
      using False by (auto simp: set_by_id_kept update_conv')
    ultimately show ?thesis using snoc by simp
  qed
qed

lemma by_id_length: "length (fold (set_by_id D) rs al) \<le> length al + length rs"
proof (induction rs arbitrary: al)
  case Nil
  then show ?case by simp
next
  case (Cons r rs)
  have "length (AList.update k v al) \<le> Suc (length al)" for k v
    by (induction al) auto
  then have "length (set_by_id D r al) \<le> Suc (length al)"
    by (simp add: set_by_id_kept)
  with Cons.IH[of "set_by_id D r al"] show ?case by simp
qed

lemma by_id_values_subset: "snd ` set (fold (set_by_id D) rs al) \<subseteq> snd ` set al \<union> set rs"
proof (induction rs arbitrary: al)
  case Nil
  then show ?case by simp
next
  case (Cons r rs)
  have "set (AList.update k v al) \<subseteq> insert (k, v) (set al)" for k v
    by (induction al) auto
  then have "set (set_by_id D r al) \<subseteq> insert (messageId r, r) (set al)"
    by (auto simp: set_by_id_kept)
  then have "snd ` set (set_by_id D r al) \<subseteq> insert r (snd ` set al)"
    by fastforce
  with Cons.IH[of "set_by_id D r al"] show ?case by auto
qed

subsection \<open>The stable sort\<close>

lemma set_insert_sorted: "set (insert_sorted x ys) = insert x (set ys)"
  by (induction ys) auto

lemma set_toSorted: "set (toSorted xs) = set xs"
  by (induction xs) (simp_all add: toSorted_def set_insert_sorted)

lemma length_insert_sorted: "length (insert_sorted x ys) = Suc (length ys)"
  by (induction ys) auto

lemma length_toSorted: "length (toSorted xs) = length xs"
  by (induction xs) (simp_all add: toSorted_def length_insert_sorted)

lemma distinct_ids_insert_sorted:
  "distinct (map messageId (insert_sorted x ys))
     \<longleftrightarrow> messageId x \<notin> messageId ` set ys \<and> distinct (map messageId ys)"
  by (induction ys) (auto simp: set_insert_sorted)

lemma distinct_ids_toSorted:
  "distinct (map messageId (toSorted xs)) \<longleftrightarrow> distinct (map messageId xs)"
proof (induction xs)
  case Nil
  then show ?case by (simp add: toSorted_def)
next
  case (Cons x xs)
  have "toSorted (x # xs) = insert_sorted x (toSorted xs)" by (simp add: toSorted_def)
  with Cons show ?case by (simp add: distinct_ids_insert_sorted set_toSorted)
qed

lemma compare_le_iff:
  "compare_messages a b \<le> 0 \<longleftrightarrow> date a < date b \<or> (date a = date b \<and> messageId a \<le> messageId b)"
  by (auto simp: compare_messages_def)

lemma sorted_insert_sorted:
  "sorted_wrt (\<lambda>a b. compare_messages a b \<le> 0) ys
     \<Longrightarrow> sorted_wrt (\<lambda>a b. compare_messages a b \<le> 0) (insert_sorted x ys)"
proof (induction ys)
  case Nil
  then show ?case by simp
next
  case (Cons y ys)
  show ?case
  proof (cases "compare_messages x y \<le> 0")
    case True
    have "\<forall>z\<in>set ys. compare_messages x z \<le> 0"
    proof
      fix z assume "z \<in> set ys"
      with Cons.prems have "compare_messages y z \<le> 0" by simp
      with True show "compare_messages x z \<le> 0" unfolding compare_le_iff by auto
    qed
    with True Cons.prems show ?thesis by simp
  next
    case False
    then have "compare_messages y x \<le> 0" unfolding compare_le_iff by auto
    with False Cons show ?thesis by (auto simp: set_insert_sorted)
  qed
qed

lemma sorted_toSorted: "sorted_wrt (\<lambda>a b. compare_messages a b \<le> 0) (toSorted xs)"
proof (induction xs)
  case Nil
  then show ?case by (simp add: toSorted_def)
next
  case (Cons x xs)
  have "toSorted (x # xs) = insert_sorted x (toSorted xs)" by (simp add: toSorted_def)
  with Cons show ?case by (simp add: sorted_insert_sorted)
qed

lemma sorted_strict:
  "sorted_wrt (\<lambda>a b. compare_messages a b \<le> 0) xs \<Longrightarrow> distinct (map messageId xs)
     \<Longrightarrow> sorted_wrt canonical_before xs"
proof (induction xs)
  case Nil
  then show ?case by simp
next
  case (Cons x xs)
  have "\<forall>z\<in>set xs. canonical_before x z"
  proof
    fix z assume z: "z \<in> set xs"
    with Cons.prems have "compare_messages x z \<le> 0" and "messageId x \<noteq> messageId z" by auto
    then show "canonical_before x z" unfolding compare_le_iff canonical_before_def by auto
  qed
  with Cons show ?case by simp
qed

subsection \<open>The canonical view\<close>

lemma dedup_set:
  "set (deduplicateMessages rs) = snd ` set (fold (set_by_id (collect_deleted rs)) rs [])"
  by (simp add: deduplicateMessages_def Let_def set_toSorted)

lemma by_id_ids:
  "map (messageId \<circ> snd) (fold (set_by_id D) rs []) = map fst (fold (set_by_id D) rs [])"
proof -
  have "\<forall>(k, v)\<in>set (fold (set_by_id D) rs []). messageId v = k"
    by (rule by_id_keys) simp
  then show ?thesis by auto
qed

lemma dedup_distinct: "distinct (map messageId (deduplicateMessages rs))"
proof -
  have "distinct (map fst (fold (set_by_id (collect_deleted rs)) rs []))"
    by (rule by_id_distinct) simp
  then show ?thesis
    by (simp add: deduplicateMessages_def Let_def distinct_ids_toSorted by_id_ids)
qed

lemma dedup_member:
  "m \<in> set (deduplicateMessages rs) \<longleftrightarrow>
     filter (\<lambda>r. kept (collect_deleted rs) r \<and> messageId r = messageId m) rs \<noteq> [] \<and>
     m = last (filter (\<lambda>r. kept (collect_deleted rs) r \<and> messageId r = messageId m) rs)"
proof -
  let ?D = "collect_deleted rs"
  let ?al = "fold (set_by_id ?D) rs []"
  have d: "distinct (map fst ?al)" by (rule by_id_distinct) simp
  have k: "\<forall>(k, v)\<in>set ?al. messageId v = k" by (rule by_id_keys) simp
  have "m \<in> set (deduplicateMessages rs) \<longleftrightarrow> (messageId m, m) \<in> set ?al"
    using k by (force simp: dedup_set)
  also have "\<dots> \<longleftrightarrow> map_of ?al (messageId m) = Some m"
    using d by simp
  also have "\<dots> \<longleftrightarrow> filter (\<lambda>r. kept ?D r \<and> messageId r = messageId m) rs \<noteq> [] \<and>
     m = last (filter (\<lambda>r. kept ?D r \<and> messageId r = messageId m) rs)"
    by (auto simp: by_id_lookup)
  finally show ?thesis .
qed

lemma dedup_sorted: "sorted_wrt canonical_before (deduplicateMessages rs)"
  using sorted_strict[OF _ dedup_distinct, of rs] sorted_toSorted
  by (simp add: deduplicateMessages_def Let_def)

lemma dedup_length: "length (deduplicateMessages rs) \<le> length rs"
  using by_id_length[of "collect_deleted rs" rs "[]"]
  by (simp add: deduplicateMessages_def Let_def length_toSorted)

lemma dedup_subset: "set (deduplicateMessages rs) \<subseteq> set rs"
  using by_id_values_subset[of "collect_deleted rs" rs "[]"] by (simp add: dedup_set)

lemma dedup_not_deleted:
  "m \<in> set (deduplicateMessages rs) \<Longrightarrow> event m \<noteq> Deleted \<and> messageId m \<notin> collect_deleted rs"
proof -
  assume "m \<in> set (deduplicateMessages rs)"
  then have f: "filter (\<lambda>r. kept (collect_deleted rs) r \<and> messageId r = messageId m) rs \<noteq> []"
    and m: "m = last (filter (\<lambda>r. kept (collect_deleted rs) r \<and> messageId r = messageId m) rs)"
    unfolding dedup_member by blast+
  from last_in_set[OF f] m
  have "m \<in> set (filter (\<lambda>r. kept (collect_deleted rs) r \<and> messageId r = messageId m) rs)"
    by simp
  then show ?thesis by (simp add: kept_def)
qed

lemma surviving_unnamed:
  "\<forall>d\<in>set rs. \<not> named_by X d \<Longrightarrow>
     filter (\<lambda>r. messageId r = X) (surviving rs) = filter (\<lambda>r. event r \<noteq> Deleted \<and> messageId r = X) rs"
  by (induction rs) (auto simp: list_ex_iff)


subsection \<open>Sample records\<close>

lemma sample_distinct:
  "sample_new \<noteq> sample_edited" "sample_new \<noteq> sample_marker" "sample_new \<noteq> sample_second"
  "sample_edited \<noteq> sample_marker" "sample_edited \<noteq> sample_second" "sample_marker \<noteq> sample_second"
  "sample_edited \<noteq> sample_new" "sample_marker \<noteq> sample_new" "sample_second \<noteq> sample_new"
  "sample_marker \<noteq> sample_edited" "sample_second \<noteq> sample_edited" "sample_second \<noteq> sample_marker"
  by (simp_all add: sample_new_def sample_edited_def sample_marker_def sample_second_def
      sample_message_def deletion_marker_def)

lemma trim_sample:
  "trim ''new-1'' \<noteq> []" "trim ''edited-1'' \<noteq> []" "trim ''deleted-1'' \<noteq> []" "trim ''new-2'' \<noteq> []"
  by (simp_all add: trim_def is_ws_def)

lemma sample_codec_ok:
  "codec_ok sample_parse sample_stringify [sample_new, sample_edited, sample_marker, sample_second]"
  by (simp add: codec_ok_def sample_parse_def sample_stringify_def sample_distinct trim_sample newline_def)

lemma sample_fields:
  "messageId sample_new = 1" "messageId sample_edited = 1" "messageId sample_marker = 0"
  "messageId sample_second = 2"
  "event sample_new = New" "event sample_edited = Edited" "event sample_marker = Deleted"
  "event sample_second = New"
  "deletedMessageIds sample_new = None" "deletedMessageIds sample_edited = None"
  "deletedMessageIds sample_marker = Some [1]" "deletedMessageIds sample_second = None"
  "date sample_new = 100" "date sample_edited = 101" "date sample_marker = 102"
  "date sample_second = 103"
  by (simp_all add: sample_new_def sample_edited_def sample_marker_def sample_second_def
      sample_message_def deletion_marker_def)

lemma dedup_sample_edits:
  "deduplicateMessages [sample_new, sample_edited, sample_second] = [sample_edited, sample_second]"
  by (simp add: deduplicateMessages_def collect_deleted_def add_deleted_def set_by_id_def
      toSorted_def compare_messages_def sample_fields)

lemma dedup_sample_deleted:
  "deduplicateMessages [sample_new, sample_edited, sample_second, sample_marker] = [sample_second]"
  by (simp add: deduplicateMessages_def collect_deleted_def add_deleted_def set_by_id_def
      toSorted_def compare_messages_def sample_fields)

subsection \<open>The canonical view of an appended log\<close>

text \<open>
  C1. For every sequence \<open>ms\<close> of records appended to a fresh chat, the canonical view
  (\<open>deduplicateMessages\<close> of \<open>readJsonl\<close>) has at most one record per \<open>messageId\<close>,
  and the record it has for an id is the last non-deletion record with that id that no
  later deletion marker names. An id that no marker names and that has a non-deletion
  record is present in the view.
\<close>

theorem canonical_view_last_surviving:
  assumes "codec_ok parse stringify ms"
  shows "let view = deduplicateMessages
                      (readJsonl parse (fold (appendBusinessMessage stringify) ms None))
         in distinct (map messageId view) \<and>
            (\<forall>m\<in>set view. last_surviving (messageId m) ms = Some m) \<and>
            (\<forall>r\<in>set ms. event r \<noteq> Deleted \<and> \<not> list_ex (named_by (messageId r)) ms
                 \<longrightarrow> messageId r \<in> messageId ` set view)"
proof -
  have rd: "readJsonl parse (fold (appendBusinessMessage stringify) ms None) = ms"
    using readJsonl_appends[OF assms, of None] by (simp add: terminated_def readJsonl_missing)
  have "last_surviving (messageId m) ms = Some m" if m: "m \<in> set (deduplicateMessages ms)" for m
  proof -
    let ?X = "messageId m"
    let ?D = "collect_deleted ms"
    from dedup_not_deleted[OF m] have nd: "?X \<notin> ?D" by simp
    then have un: "\<forall>d\<in>set ms. \<not> named_by ?X d" by (simp add: collect_deleted_iff)
    have "filter (\<lambda>r. messageId r = ?X) (surviving ms)
            = filter (\<lambda>r. event r \<noteq> Deleted \<and> messageId r = ?X) ms"
      by (rule surviving_unnamed[OF un])
    also have "\<dots> = filter (\<lambda>r. kept ?D r \<and> messageId r = ?X) ms"
      using nd by (auto simp: kept_def intro: filter_cong)
    finally have eq: "filter (\<lambda>r. messageId r = ?X) (surviving ms)
            = filter (\<lambda>r. kept ?D r \<and> messageId r = ?X) ms" .
    from m have "filter (\<lambda>r. kept ?D r \<and> messageId r = ?X) ms \<noteq> []"
      and "m = last (filter (\<lambda>r. kept ?D r \<and> messageId r = ?X) ms)"
      unfolding dedup_member by blast+
    then show ?thesis
      by (simp add: last_surviving_def eq Let_def)
  qed
  moreover have "messageId r \<in> messageId ` set (deduplicateMessages ms)"
    if r: "r \<in> set ms" and e: "event r \<noteq> Deleted"
      and n: "\<not> list_ex (named_by (messageId r)) ms" for r
  proof -
    let ?D = "collect_deleted ms"
    let ?l = "filter (\<lambda>x. kept ?D x \<and> messageId x = messageId r) ms"
    from n have "messageId r \<notin> ?D" by (simp add: collect_deleted_iff list_ex_iff)
    with e have "kept ?D r" by (simp add: kept_def)
    with r have "r \<in> set ?l" by simp
    then have ne: "?l \<noteq> []" by (cases ?l) simp_all
    from last_in_set[OF ne] have id: "messageId (last ?l) = messageId r" by simp
    have "filter (\<lambda>x. kept ?D x \<and> messageId x = messageId (last ?l)) ms \<noteq> [] \<and>
          last ?l = last (filter (\<lambda>x. kept ?D x \<and> messageId x = messageId (last ?l)) ms)"
      using ne by (simp only: id) simp
    then have "last ?l \<in> set (deduplicateMessages ms)"
      by (rule dedup_member[THEN iffD2])
    then have "messageId (last ?l) \<in> messageId ` set (deduplicateMessages ms)"
      by (rule imageI)
    then show ?thesis by (simp only: id)
  qed
  ultimately show ?thesis by (simp add: rd Let_def dedup_distinct)
qed

text \<open>On the sample log: a new record and its edit yield the edit, next to the second message.\<close>

theorem canonical_view_last_surviving_witness:
  "codec_ok sample_parse sample_stringify [sample_new, sample_edited, sample_second] \<and>
   deduplicateMessages (readJsonl sample_parse
      (fold (appendBusinessMessage sample_stringify) [sample_new, sample_edited, sample_second] None))
     = [sample_edited, sample_second] \<and>
   last_surviving 1 [sample_new, sample_edited, sample_second] = Some sample_edited \<and>
   last_surviving 2 [sample_new, sample_edited, sample_second] = Some sample_second"
proof -
  have ok: "codec_ok sample_parse sample_stringify [sample_new, sample_edited, sample_second]"
    by (rule codec_ok_subset[OF sample_codec_ok]) simp
  have view: "deduplicateMessages (readJsonl sample_parse
      (fold (appendBusinessMessage sample_stringify) [sample_new, sample_edited, sample_second] None))
     = [sample_edited, sample_second]"
    using readJsonl_appends[OF ok, of None]
    by (simp only: readJsonl_missing terminated_def option.case append_Nil dedup_sample_edits)
  from canonical_view_last_surviving[OF ok]
  have "last_surviving 1 [sample_new, sample_edited, sample_second] = Some sample_edited \<and>
        last_surviving 2 [sample_new, sample_edited, sample_second] = Some sample_second"
    unfolding Let_def view by (simp add: sample_fields)
  with ok view show ?thesis by simp
qed

text \<open>
  C2, as amended. Appending a deletion marker whose \<open>deletedMessageIds\<close> contains \<open>X\<close>
  to a log that is absent, empty or ends with a newline removes \<open>X\<close> from the canonical
  view, whatever records the log holds for \<open>X\<close>. In particular a new record for id 1,
  an edited record for id 1 and a marker naming id 1, appended to a fresh chat, give an
  empty canonical view.
\<close>

theorem deletion_marker_removes:
  "(codec_ok parse stringify [deletion_marker now_date now_stored ids bcid] \<and> terminated file \<and>
      X \<in> set ids
    \<longrightarrow> X \<notin> messageId ` set (deduplicateMessages (readJsonl parse
            (appendDeletionMarker stringify now_date now_stored ids bcid file)))) \<and>
   (codec_ok parse stringify [r1, r2, deletion_marker now_date now_stored [1] bcid] \<and>
      messageId r1 = 1 \<and> event r1 = New \<and> messageId r2 = 1 \<and> event r2 = Edited
    \<longrightarrow> deduplicateMessages (readJsonl parse
          (appendDeletionMarker stringify now_date now_stored [1] bcid
             (appendBusinessMessage stringify r2 (appendBusinessMessage stringify r1 None)))) = [])"
proof (intro conjI impI)
  let ?mk = "deletion_marker now_date now_stored ids bcid"
  assume a: "codec_ok parse stringify [?mk] \<and> terminated file \<and> X \<in> set ids"
  then have rd: "readJsonl parse (appendDeletionMarker stringify now_date now_stored ids bcid file)
           = readJsonl parse file @ [?mk]"
    by (simp add: appendDeletionMarker_def readJsonl_append)
  have "named_by X ?mk" using a by (simp add: named_by_def deletion_marker_def)
  then have "X \<in> collect_deleted (readJsonl parse file @ [?mk])"
    by (auto simp: collect_deleted_iff)
  then show "X \<notin> messageId ` set (deduplicateMessages (readJsonl parse
            (appendDeletionMarker stringify now_date now_stored ids bcid file)))"
    unfolding rd using dedup_not_deleted by blast
next
  let ?mk = "deletion_marker now_date now_stored [1] bcid"
  assume a: "codec_ok parse stringify [r1, r2, ?mk] \<and>
      messageId r1 = 1 \<and> event r1 = New \<and> messageId r2 = 1 \<and> event r2 = Edited"
  then have ok: "codec_ok parse stringify [r1, r2, ?mk]" by simp
  have "appendDeletionMarker stringify now_date now_stored [1] bcid
             (appendBusinessMessage stringify r2 (appendBusinessMessage stringify r1 None))
        = fold (appendBusinessMessage stringify) [r1, r2, ?mk] None"
    by (simp add: appendDeletionMarker_def)
  then have rd: "readJsonl parse (appendDeletionMarker stringify now_date now_stored [1] bcid
             (appendBusinessMessage stringify r2 (appendBusinessMessage stringify r1 None)))
        = [r1, r2, ?mk]"
    using readJsonl_appends[OF ok, of None] by (simp add: terminated_def readJsonl_missing)
  have mk: "named_by 1 ?mk" "event ?mk = Deleted" by (simp_all add: named_by_def deletion_marker_def)
  have "m \<notin> set (deduplicateMessages [r1, r2, ?mk])" for m
  proof
    assume m: "m \<in> set (deduplicateMessages [r1, r2, ?mk])"
    from dedup_not_deleted[OF m] have e: "event m \<noteq> Deleted"
      and n: "\<not> (\<exists>d\<in>set [r1, r2, ?mk]. named_by (messageId m) d)"
      by (simp_all only: collect_deleted_iff not_False_eq_True)
    from m dedup_subset have "m \<in> set [r1, r2, ?mk]" by blast
    with e mk(2) a have "messageId m = 1" by auto
    with n mk(1) show False by simp
  qed
  then have "deduplicateMessages [r1, r2, ?mk] = []" by (meson last_in_set)
  then show "deduplicateMessages (readJsonl parse
          (appendDeletionMarker stringify now_date now_stored [1] bcid
             (appendBusinessMessage stringify r2 (appendBusinessMessage stringify r1 None)))) = []"
    by (simp only: rd)
qed

text \<open>
  On the sample log: the marker removes id 1, edited once, and leaves id 2; the
  three-record scenario of the specification has an empty view.
\<close>

theorem deletion_marker_removes_witness:
  "codec_ok sample_parse sample_stringify [sample_marker] \<and>
   terminated (fold (appendBusinessMessage sample_stringify)
                 [sample_new, sample_edited, sample_second] None) \<and>
   deduplicateMessages (readJsonl sample_parse
     (appendDeletionMarker sample_stringify 102000 102000 [1] ''bc''
        (fold (appendBusinessMessage sample_stringify)
           [sample_new, sample_edited, sample_second] None))) = [sample_second] \<and>
   1 \<notin> messageId ` set (deduplicateMessages (readJsonl sample_parse
     (appendDeletionMarker sample_stringify 102000 102000 [1] ''bc''
        (fold (appendBusinessMessage sample_stringify)
           [sample_new, sample_edited, sample_second] None)))) \<and>
   deduplicateMessages (readJsonl sample_parse
     (appendDeletionMarker sample_stringify 102000 102000 [1] ''bc''
        (appendBusinessMessage sample_stringify sample_edited
           (appendBusinessMessage sample_stringify sample_new None)))) = []"
proof -
  let ?log = "fold (appendBusinessMessage sample_stringify) [sample_new, sample_edited, sample_second] None"
  have mk: "deletion_marker 102000 102000 [1] ''bc'' = sample_marker"
    by (simp add: sample_marker_def)
  have ok1: "codec_ok sample_parse sample_stringify [sample_marker]"
    by (rule codec_ok_subset[OF sample_codec_ok]) simp
  have ok3: "codec_ok sample_parse sample_stringify [sample_new, sample_edited, sample_marker]"
    by (rule codec_ok_subset[OF sample_codec_ok]) simp
  have ok4: "codec_ok sample_parse sample_stringify [sample_new, sample_edited, sample_second, sample_marker]"
    by (rule codec_ok_subset[OF sample_codec_ok]) simp
  have t: "terminated ?log" by (simp add: terminated_append)
  have "appendDeletionMarker sample_stringify 102000 102000 [1] ''bc'' ?log
          = fold (appendBusinessMessage sample_stringify)
              [sample_new, sample_edited, sample_second, sample_marker] None"
    by (simp add: appendDeletionMarker_def mk)
  then have view: "deduplicateMessages (readJsonl sample_parse
       (appendDeletionMarker sample_stringify 102000 102000 [1] ''bc'' ?log)) = [sample_second]"
    using readJsonl_appends[OF ok4, of None]
    by (simp only: readJsonl_missing terminated_def option.case append_Nil dedup_sample_deleted)
  note inst = deletion_marker_removes[of sample_parse sample_stringify 102000 102000 "[1]" "''bc''"
      ?log 1 sample_new sample_edited, unfolded mk]
  have gone: "1 \<notin> messageId ` set (deduplicateMessages (readJsonl sample_parse
       (appendDeletionMarker sample_stringify 102000 102000 [1] ''bc'' ?log)))"
  proof (rule inst[THEN conjunct1, THEN mp])
    show "codec_ok sample_parse sample_stringify [sample_marker] \<and> terminated ?log \<and> 1 \<in> set [1]"
      using ok1 t by simp
  qed
  have scenario: "deduplicateMessages (readJsonl sample_parse
     (appendDeletionMarker sample_stringify 102000 102000 [1] ''bc''
        (appendBusinessMessage sample_stringify sample_edited
           (appendBusinessMessage sample_stringify sample_new None)))) = []"
  proof (rule inst[THEN conjunct2, THEN mp])
    show "codec_ok sample_parse sample_stringify [sample_new, sample_edited, sample_marker] \<and>
      messageId sample_new = 1 \<and> event sample_new = New \<and>
      messageId sample_edited = 1 \<and> event sample_edited = Edited"
      using ok3 by (simp add: sample_fields)
  qed
  show ?thesis
    by (rule conjI[OF ok1 conjI[OF t conjI[OF view conjI[OF gone scenario]]]])
qed


lemma sample_stringify_marker:
  "sample_stringify (deletion_marker 102000 102000 [1] ''bc'') = ''deleted-1''"
proof -
  have "deletion_marker 102000 102000 [1] ''bc'' = sample_marker"
    by (simp add: sample_marker_def)
  then show ?thesis by (simp add: sample_stringify_def sample_distinct)
qed

lemma sample_cut_log_read:
  "readJsonl sample_parse sample_cut_log = [sample_new]"
  by (simp add: sample_cut_log_def readJsonl_def newline_def trim_def is_ws_def sample_parse_def)

lemma sample_cut_log_marked_read:
  "readJsonl sample_parse
     (appendDeletionMarker sample_stringify 102000 102000 [1] ''bc'' sample_cut_log) = [sample_new]"
  by (simp add: appendDeletionMarker_def appendBusinessMessage_def sample_stringify_marker
      sample_cut_log_def readJsonl_def newline_def trim_def is_ws_def sample_parse_def)

lemma dedup_sample_new: "deduplicateMessages [sample_new] = [sample_new]"
  by (simp add: deduplicateMessages_def collect_deleted_def add_deleted_def set_by_id_def
      toSorted_def sample_fields)

text \<open>
  C2 as stated fails on a log whose last line was cut off before its newline: the
  marker is written onto that line, \<open>JSON.parse\<close> rejects the joined line, and the
  record for id 1 stays in the canonical view.
\<close>

theorem deletion_marker_counterexample:
  "codec_ok sample_parse sample_stringify [deletion_marker 102000 102000 [1] ''bc''] \<and>
   messageId sample_new = 1 \<and>
   deduplicateMessages (readJsonl sample_parse sample_cut_log) = [sample_new] \<and>
   deduplicateMessages (readJsonl sample_parse
     (appendDeletionMarker sample_stringify 102000 102000 [1] ''bc'' sample_cut_log)) = [sample_new]"
proof -
  have "deletion_marker 102000 102000 [1] ''bc'' = sample_marker"
    by (simp add: sample_marker_def)
  then have ok: "codec_ok sample_parse sample_stringify [deletion_marker 102000 102000 [1] ''bc'']"
    using codec_ok_subset[OF sample_codec_ok, of "[sample_marker]"] by simp
  show ?thesis
    using ok by (simp only: sample_cut_log_read sample_cut_log_marked_read dedup_sample_new
        sample_fields simp_thms)
qed

subsection \<open>Pages of the canonical view\<close>

lemma load_as_window:
  "loadChatMessages parse file opts =
     (let filtered = filter (in_window opts) (deduplicateMessages (readJsonl parse file));
          lim = effective_limit opts
      in if lim > 0 \<and> int (length filtered) > lim then slice_last lim filtered else filtered)"
proof -
  let ?c = "deduplicateMessages (readJsonl parse file)"
  have f: "(case Option.bind opts before of
              Some b \<Rightarrow> filter (\<lambda>m. messageId m < b)
                          (case Option.bind opts after of
                             Some a \<Rightarrow> filter (\<lambda>m. messageId m > a) ?c | None \<Rightarrow> ?c)
            | None \<Rightarrow> (case Option.bind opts after of
                             Some a \<Rightarrow> filter (\<lambda>m. messageId m > a) ?c | None \<Rightarrow> ?c))
           = filter (in_window opts) ?c"
    by (auto simp: in_window_def split: option.splits intro: filter_cong)
  show ?thesis
    unfolding loadChatMessages_def Let_def effective_limit_def f ..
qed

lemma load_subset_window:
  "set (loadChatMessages parse file opts)
     \<subseteq> set (filter (in_window opts) (deduplicateMessages (readJsonl parse file)))"
  unfolding load_as_window Let_def slice_last_def by (auto dest: in_set_dropD)

lemma load_suffix:
  "suffix (loadChatMessages parse file opts)
     (filter (in_window opts) (deduplicateMessages (readJsonl parse file)))"
  unfolding load_as_window Let_def slice_last_def by (simp add: suffix_drop)

lemma load_as_last_limit:
  "loadChatMessages parse file opts =
     last_limit (effective_limit opts)
       (filter (in_window opts) (deduplicateMessages (readJsonl parse file)))"
  unfolding load_as_window Let_def last_limit_def slice_last_def ..

lemma in_window_both:
  "Option.bind opts after = Some A \<Longrightarrow> Option.bind opts before = Some B \<Longrightarrow>
     in_window opts = (\<lambda>m. A < messageId m \<and> messageId m < B)"
  by (simp add: in_window_def fun_eq_iff)

lemma in_window_after:
  "Option.bind opts after = Some A \<Longrightarrow> Option.bind opts before = None \<Longrightarrow>
     in_window opts = (\<lambda>m. A < messageId m)"
  by (simp add: in_window_def fun_eq_iff)

lemma in_window_before:
  "Option.bind opts after = None \<Longrightarrow> Option.bind opts before = Some B \<Longrightarrow>
     in_window opts = (\<lambda>m. messageId m < B)"
  by (simp add: in_window_def fun_eq_iff)

text \<open>
  C4, as amended. With \<open>after = A\<close>, \<open>loadChatMessages\<close> returns only messages whose
  \<open>messageId\<close> exceeds \<open>A\<close>; with \<open>before = B\<close>, only messages whose \<open>messageId\<close> is
  below \<open>B\<close>. The page is exactly the last \<open>limit\<close> (50 when none is given) of the
  canonical messages that satisfy the bounds set, and all of them when \<open>limit \<le> 0\<close> or
  when no more than \<open>limit\<close> satisfy them. A chat without a log file, or without
  canonical messages, gives the empty sequence.
\<close>

theorem load_bounds_amended:
  "let canonical = deduplicateMessages (readJsonl parse file);
       lim = effective_limit opts;
       res = loadChatMessages parse file opts
   in (\<forall>A. Option.bind opts after = Some A \<longrightarrow> (\<forall>m\<in>set res. messageId m > A)) \<and>
      (\<forall>B. Option.bind opts before = Some B \<longrightarrow> (\<forall>m\<in>set res. messageId m < B)) \<and>
      (\<forall>A B. Option.bind opts after = Some A \<and> Option.bind opts before = Some B \<longrightarrow>
         res = last_limit lim (filter (\<lambda>m. A < messageId m \<and> messageId m < B) canonical)) \<and>
      (\<forall>A. Option.bind opts after = Some A \<and> Option.bind opts before = None \<longrightarrow>
         res = last_limit lim (filter (\<lambda>m. A < messageId m) canonical)) \<and>
      (\<forall>B. Option.bind opts after = None \<and> Option.bind opts before = Some B \<longrightarrow>
         res = last_limit lim (filter (\<lambda>m. messageId m < B) canonical)) \<and>
      (file = None \<or> canonical = [] \<longrightarrow> res = [])"
proof -
  let ?c = "deduplicateMessages (readJsonl parse file)"
  let ?lim = "effective_limit opts"
  let ?res = "loadChatMessages parse file opts"
  have 1: "\<forall>A. Option.bind opts after = Some A \<longrightarrow> (\<forall>m\<in>set ?res. messageId m > A)"
    using load_subset_window[of parse "file" opts] by (auto simp: in_window_def)
  have 2: "\<forall>B. Option.bind opts before = Some B \<longrightarrow> (\<forall>m\<in>set ?res. messageId m < B)"
    using load_subset_window[of parse "file" opts] by (auto simp: in_window_def)
  have 3: "\<forall>A B. Option.bind opts after = Some A \<and> Option.bind opts before = Some B \<longrightarrow>
         ?res = last_limit ?lim (filter (\<lambda>m. A < messageId m \<and> messageId m < B) ?c)"
    using load_as_last_limit[of parse "file" opts] by (auto simp: in_window_both)
  have 4: "\<forall>A. Option.bind opts after = Some A \<and> Option.bind opts before = None \<longrightarrow>
         ?res = last_limit ?lim (filter (\<lambda>m. A < messageId m) ?c)"
    using load_as_last_limit[of parse "file" opts] by (auto simp: in_window_after)
  have 5: "\<forall>B. Option.bind opts after = None \<and> Option.bind opts before = Some B \<longrightarrow>
         ?res = last_limit ?lim (filter (\<lambda>m. messageId m < B) ?c)"
    using load_as_last_limit[of parse "file" opts] by (auto simp: in_window_before)
  have 6: "file = None \<or> ?c = [] \<longrightarrow> ?res = []"
  proof
    assume "file = None \<or> ?c = []"
    then have "?c = []"
      by (auto simp: readJsonl_missing deduplicateMessages_def collect_deleted_def toSorted_def)
    then show "?res = []" unfolding load_as_last_limit last_limit_def by simp
  qed
  show ?thesis unfolding Let_def using 1 2 3 4 5 6 by blast
qed

text \<open>
  C5. \<open>loadChatMessages\<close> filters the canonical view by the bounds first; when more
  messages remain than a positive limit allows, it returns exactly the last \<open>limit\<close> of
  them, and otherwise (also for \<open>limit \<le> 0\<close>) all of them. The limit is 50 when none is
  given, and the page is in ascending \<open>(date, messageId)\<close> order.
\<close>

theorem load_keeps_last_limit:
  "let filtered = filter (in_window opts) (deduplicateMessages (readJsonl parse file));
       lim = effective_limit opts;
       res = loadChatMessages parse file opts
   in (lim > 0 \<and> int (length filtered) > lim
         \<longrightarrow> res = drop (length filtered - nat lim) filtered \<and> int (length res) = lim) \<and>
      (lim \<le> 0 \<or> int (length filtered) \<le> lim \<longrightarrow> res = filtered) \<and>
      (Option.bind opts limit = None \<longrightarrow> lim = 50) \<and>
      sorted_wrt canonical_before res"
proof -
  let ?f = "filter (in_window opts) (deduplicateMessages (readJsonl parse file))"
  let ?lim = "effective_limit opts"
  let ?res = "loadChatMessages parse file opts"
  have 1: "?lim > 0 \<and> int (length ?f) > ?lim
         \<longrightarrow> ?res = drop (length ?f - nat ?lim) ?f \<and> int (length ?res) = ?lim"
    unfolding load_as_window Let_def slice_last_def by auto
  have 2: "?lim \<le> 0 \<or> int (length ?f) \<le> ?lim \<longrightarrow> ?res = ?f"
    unfolding load_as_window Let_def by auto
  have 3: "Option.bind opts limit = None \<longrightarrow> ?lim = 50"
    by (simp add: effective_limit_def)
  have "sorted_wrt canonical_before ?f"
    by (rule sorted_wrt_filter[OF dedup_sorted])
  then have 4: "sorted_wrt canonical_before ?res"
    unfolding load_as_window Let_def slice_last_def by (simp add: sorted_wrt_drop)
  show ?thesis unfolding Let_def using 1 2 3 4 by blast
qed

lemma sample_log_read:
  "readJsonl sample_parse
     (fold (appendBusinessMessage sample_stringify) [sample_new, sample_edited, sample_second] None)
   = [sample_new, sample_edited, sample_second]"
proof -
  have ok: "codec_ok sample_parse sample_stringify [sample_new, sample_edited, sample_second]"
    by (rule codec_ok_subset[OF sample_codec_ok]) simp
  show ?thesis
    using readJsonl_appends[OF ok, of None]
    by (simp only: readJsonl_missing terminated_def option.case append_Nil)
qed

lemma sample_canonical:
  "deduplicateMessages (readJsonl sample_parse
      (fold (appendBusinessMessage sample_stringify) [sample_new, sample_edited, sample_second] None))
     = [sample_edited, sample_second]"
  by (simp only: sample_log_read dedup_sample_edits)

text \<open>
  On the sample log, whose canonical view is the edit of message 1 and message 2:
  both bounds with limit 1 give the most recent message in range, both bounds with the
  default limit give all in range, a single bound gives what it admits, and a missing
  log file gives the empty page.
\<close>

theorem load_bounds_amended_witness:
  "loadChatMessages sample_parse
      (fold (appendBusinessMessage sample_stringify) [sample_new, sample_edited, sample_second] None)
      (Some \<lparr>limit = Some 1, before = Some 3, after = Some 0\<rparr>) = [sample_second] \<and>
   loadChatMessages sample_parse
      (fold (appendBusinessMessage sample_stringify) [sample_new, sample_edited, sample_second] None)
      (Some \<lparr>limit = None, before = Some 2, after = Some 0\<rparr>) = [sample_edited] \<and>
   loadChatMessages sample_parse
      (fold (appendBusinessMessage sample_stringify) [sample_new, sample_edited, sample_second] None)
      (Some \<lparr>limit = None, before = None, after = Some 1\<rparr>) = [sample_second] \<and>
   loadChatMessages sample_parse
      (fold (appendBusinessMessage sample_stringify) [sample_new, sample_edited, sample_second] None)
      (Some \<lparr>limit = None, before = Some 2, after = None\<rparr>) = [sample_edited] \<and>
   loadChatMessages sample_parse None (Some \<lparr>limit = None, before = Some 2, after = Some 0\<rparr>) = []"
proof -
  let ?log = "fold (appendBusinessMessage sample_stringify) [sample_new, sample_edited, sample_second] None"
  let ?cut = "Some \<lparr>limit = Some (1::int), before = Some (3::int), after = Some (0::int)\<rparr>"
  let ?both = "Some \<lparr>limit = None, before = Some (2::int), after = Some (0::int)\<rparr>"
  let ?aft = "Some \<lparr>limit = None, before = None, after = Some (1::int)\<rparr>"
  let ?bef = "Some \<lparr>limit = None, before = Some (2::int), after = None\<rparr>"
  have c: "Option.bind ?cut after = Some 0 \<and> Option.bind ?cut before = Some 3" by simp
  have bo: "Option.bind ?both after = Some 0 \<and> Option.bind ?both before = Some 2" by simp
  have af: "Option.bind ?aft after = Some 1 \<and> Option.bind ?aft before = None" by simp
  have be: "Option.bind ?bef after = None \<and> Option.bind ?bef before = Some 2" by simp
  have l1: "effective_limit ?cut = 1" and l50: "effective_limit ?both = 50"
    "effective_limit ?aft = 50" "effective_limit ?bef = 50"
    by (simp_all add: effective_limit_def)
  have f: "last_limit 1 (filter (\<lambda>m. 0 < messageId m \<and> messageId m < 3) [sample_edited, sample_second])
             = [sample_second]"
    "last_limit 50 (filter (\<lambda>m. 0 < messageId m \<and> messageId m < 2) [sample_edited, sample_second])
             = [sample_edited]"
    "last_limit 50 (filter (\<lambda>m. 1 < messageId m) [sample_edited, sample_second]) = [sample_second]"
    "last_limit 50 (filter (\<lambda>m. messageId m < 2) [sample_edited, sample_second]) = [sample_edited]"
    by (simp_all add: last_limit_def sample_fields)
  from load_bounds_amended[of sample_parse "?log" ?cut] c
  have "loadChatMessages sample_parse ?log ?cut
          = last_limit (effective_limit ?cut)
              (filter (\<lambda>m. 0 < messageId m \<and> messageId m < 3)
                 (deduplicateMessages (readJsonl sample_parse ?log)))"
    unfolding Let_def by blast
  then have r1: "loadChatMessages sample_parse ?log ?cut = [sample_second]"
    by (simp only: sample_canonical l1 f)
  from load_bounds_amended[of sample_parse "?log" ?both] bo
  have "loadChatMessages sample_parse ?log ?both
          = last_limit (effective_limit ?both)
              (filter (\<lambda>m. 0 < messageId m \<and> messageId m < 2)
                 (deduplicateMessages (readJsonl sample_parse ?log)))"
    unfolding Let_def by blast
  then have r2: "loadChatMessages sample_parse ?log ?both = [sample_edited]"
    by (simp only: sample_canonical l50 f)
  from load_bounds_amended[of sample_parse "?log" ?aft] af
  have "loadChatMessages sample_parse ?log ?aft
          = last_limit (effective_limit ?aft)
              (filter (\<lambda>m. 1 < messageId m) (deduplicateMessages (readJsonl sample_parse ?log)))"
    unfolding Let_def by blast
  then have r3: "loadChatMessages sample_parse ?log ?aft = [sample_second]"
    by (simp only: sample_canonical l50 f)
  from load_bounds_amended[of sample_parse "?log" ?bef] be
  have "loadChatMessages sample_parse ?log ?bef
          = last_limit (effective_limit ?bef)
              (filter (\<lambda>m. messageId m < 2) (deduplicateMessages (readJsonl sample_parse ?log)))"
    unfolding Let_def by blast
  then have r4: "loadChatMessages sample_parse ?log ?bef = [sample_edited]"
    by (simp only: sample_canonical l50 f)
  from load_bounds_amended[of sample_parse None ?both]
  have r5: "loadChatMessages sample_parse None ?both = []"
    unfolding Let_def by blast
  show ?thesis
    by (rule conjI[OF r1 conjI[OF r2 conjI[OF r3 conjI[OF r4 r5]]]])
qed

text \<open>
  C4 as stated fails: with \<open>after = 0\<close>, \<open>before = 3\<close> and \<open>limit = 1\<close> the edit of
  message 1 is in the canonical view and satisfies both bounds, yet it is not returned.
\<close>

theorem load_bounds_counterexample:
  "Option.bind sample_page_opts after = Some 0 \<and> Option.bind sample_page_opts before = Some 3 \<and>
   0 < messageId sample_edited \<and> messageId sample_edited < 3 \<and>
   sample_edited \<in> set (deduplicateMessages (readJsonl sample_parse
      (fold (appendBusinessMessage sample_stringify) [sample_new, sample_edited, sample_second] None))) \<and>
   sample_edited \<notin> set (loadChatMessages sample_parse
      (fold (appendBusinessMessage sample_stringify) [sample_new, sample_edited, sample_second] None)
      sample_page_opts)"
proof -
  let ?log = "fold (appendBusinessMessage sample_stringify) [sample_new, sample_edited, sample_second] None"
  have b: "Option.bind sample_page_opts after = Some 0 \<and>
           Option.bind sample_page_opts before = Some 3 \<and>
           0 < messageId sample_edited \<and> messageId sample_edited < 3"
    by (simp add: sample_page_opts_def sample_fields)
  have w: "filter (in_window sample_page_opts) [sample_edited, sample_second]
             = [sample_edited, sample_second]"
    by (simp add: in_window_def sample_page_opts_def sample_fields)
  have res: "loadChatMessages sample_parse ?log sample_page_opts = [sample_second]"
    unfolding load_as_last_limit sample_canonical w
    by (simp add: last_limit_def effective_limit_def sample_page_opts_def)
  have mem: "sample_edited \<in> set (deduplicateMessages (readJsonl sample_parse ?log))"
    by (simp only: sample_canonical) simp
  have out: "sample_edited \<notin> set (loadChatMessages sample_parse ?log sample_page_opts)"
    by (simp only: res) (simp add: sample_distinct)
  from b mem out show ?thesis by (simp only: simp_thms)
qed

text \<open>
  On the sample log: limit 1 keeps the most recent of the two canonical messages; no
  options keep both.
\<close>

theorem load_keeps_last_limit_witness:
  "effective_limit (Some \<lparr>limit = Some 1, before = None, after = None\<rparr>) = 1 \<and>
   filter (in_window (Some \<lparr>limit = Some 1, before = None, after = None\<rparr>))
     (deduplicateMessages (readJsonl sample_parse
        (fold (appendBusinessMessage sample_stringify) [sample_new, sample_edited, sample_second] None)))
     = [sample_edited, sample_second] \<and>
   loadChatMessages sample_parse
      (fold (appendBusinessMessage sample_stringify) [sample_new, sample_edited, sample_second] None)
      (Some \<lparr>limit = Some 1, before = None, after = None\<rparr>) = [sample_second] \<and>
   effective_limit None = 50 \<and>
   loadChatMessages sample_parse
      (fold (appendBusinessMessage sample_stringify) [sample_new, sample_edited, sample_second] None)
      None = [sample_edited, sample_second]"
proof -
  let ?log = "fold (appendBusinessMessage sample_stringify) [sample_new, sample_edited, sample_second] None"
  let ?opts = "Some \<lparr>limit = Some (1::int), before = None, after = None\<rparr>"
  have l: "effective_limit ?opts = 1" by (simp add: effective_limit_def)
  have c: "deduplicateMessages (readJsonl sample_parse ?log) = [sample_edited, sample_second]"
    by (simp only: sample_log_read dedup_sample_edits)
  have f: "filter (in_window ?opts) (deduplicateMessages (readJsonl sample_parse ?log))
             = [sample_edited, sample_second]"
    by (simp only: c) (simp add: in_window_def)
  have f0: "filter (in_window None) (deduplicateMessages (readJsonl sample_parse ?log))
             = [sample_edited, sample_second]"
    by (simp only: c) (simp add: in_window_def)
  from load_keeps_last_limit[of ?opts sample_parse "?log"]
  have "effective_limit ?opts > 0 \<and>
          int (length (filter (in_window ?opts) (deduplicateMessages (readJsonl sample_parse ?log))))
            > effective_limit ?opts
        \<longrightarrow> loadChatMessages sample_parse ?log ?opts
              = drop (length (filter (in_window ?opts) (deduplicateMessages (readJsonl sample_parse ?log)))
                        - nat (effective_limit ?opts))
                  (filter (in_window ?opts) (deduplicateMessages (readJsonl sample_parse ?log)))"
    unfolding Let_def by blast
  then have r: "loadChatMessages sample_parse ?log ?opts = [sample_second]"
    by (simp only: f l) simp
  from load_keeps_last_limit[of None sample_parse "?log"]
  have d: "effective_limit None = 50"
    and "effective_limit None \<le> 0 \<or>
          int (length (filter (in_window None) (deduplicateMessages (readJsonl sample_parse ?log))))
            \<le> effective_limit None
        \<longrightarrow> loadChatMessages sample_parse ?log None
              = filter (in_window None) (deduplicateMessages (readJsonl sample_parse ?log))"
    unfolding Let_def by simp_all
  then have r0: "loadChatMessages sample_parse ?log None = [sample_edited, sample_second]"
    by (simp only: f0) simp
  show ?thesis
    by (rule conjI[OF l conjI[OF f conjI[OF r conjI[OF d r0]]]])
qed


subsection \<open>Chat metadata\<close>

text \<open>
  C10. \<open>updateChatMeta\<close> writes the merged record to \<open>meta.json\<close> and leaves the log
  alone. Every field whose key the partial has takes the partial's value, also when
  that value is \<open>undefined\<close>; a field whose key the partial lacks keeps the stored
  value; \<open>chatId\<close> is the chat id given; \<open>messageCount\<close> grows by exactly one when
  \<open>incrementCount\<close> is set and is unchanged otherwise.
\<close>

theorem updateChatMeta_overwrites:
  "let existing = read_meta parse_meta cid (meta_file s);
       updated = updated_meta cid partial existing;
       s' = updateChatMeta parse_meta stringify_meta cid partial s
   in meta_file s' = Some (stringify_meta updated) \<and> messages_file s' = messages_file s \<and>
      chatId updated = cid \<and>
      (\<forall>v. p_firstName partial = Some v \<longrightarrow> firstName updated = v) \<and>
      (p_firstName partial = None \<longrightarrow> firstName updated = firstName existing) \<and>
      (\<forall>v. p_lastName partial = Some v \<longrightarrow> lastName updated = v) \<and>
      (p_lastName partial = None \<longrightarrow> lastName updated = lastName existing) \<and>
      (\<forall>v. p_username partial = Some v \<longrightarrow> username updated = v) \<and>
      (p_username partial = None \<longrightarrow> username updated = username existing) \<and>
      (\<forall>v. p_lastMessageAt partial = Some v \<longrightarrow> lastMessageAt updated = v) \<and>
      (p_lastMessageAt partial = None \<longrightarrow> lastMessageAt updated = lastMessageAt existing) \<and>
      (incrementCount partial = Some True \<longrightarrow> messageCount updated = messageCount existing + 1) \<and>
      (incrementCount partial \<noteq> Some True \<longrightarrow> messageCount updated = messageCount existing)"
  by (simp add: Let_def updateChatMeta_def updated_meta_def spread_def)

text \<open>
  On the sample chat: an update carrying \<open>lastName = undefined\<close> erases the stored
  \<open>lastName\<close>, the absent \<open>firstName\<close> key keeps the stored name, a \<open>chatId\<close> in the
  partial is overridden, and the count goes from 3 to 4.
\<close>

theorem updateChatMeta_overwrites_witness:
  "read_meta sample_parse_meta 42 (meta_file sample_chat) = sample_meta \<and>
   lastName sample_meta = Some ''Smith'' \<and> p_lastName sample_partial = Some None \<and>
   lastName (updated_meta 42 sample_partial sample_meta) = None \<and>
   p_firstName sample_partial = None \<and>
   firstName (updated_meta 42 sample_partial sample_meta) = Some ''Ann'' \<and>
   p_chatId sample_partial = Some 7 \<and>
   chatId (updated_meta 42 sample_partial sample_meta) = 42 \<and>
   incrementCount sample_partial = Some True \<and>
   messageCount (updated_meta 42 sample_partial sample_meta) = 4 \<and>
   meta_file (updateChatMeta sample_parse_meta sample_stringify_meta 42 sample_partial sample_chat)
     = Some (sample_stringify_meta (updated_meta 42 sample_partial sample_meta))"
proof -
  have e: "read_meta sample_parse_meta 42 (meta_file sample_chat) = sample_meta"
    by (simp add: read_meta_def sample_chat_def sample_parse_meta_def)
  have p: "p_lastName sample_partial = Some None" "p_firstName sample_partial = None"
    "p_chatId sample_partial = Some 7" "incrementCount sample_partial = Some True"
    by (simp_all add: sample_partial_def)
  have m: "lastName sample_meta = Some ''Smith''" "firstName sample_meta = Some ''Ann''"
    "messageCount sample_meta = 3"
    by (simp_all add: sample_meta_def)
  from updateChatMeta_overwrites[of sample_parse_meta 42 sample_chat sample_partial
      sample_stringify_meta]
  show ?thesis
    unfolding Let_def e using p m by simp
qed

subsection \<open>Pruning\<close>

lemma length_slice_last: "0 < n \<Longrightarrow> int (length xs) > n \<Longrightarrow> length (slice_last n xs) = nat n"
  by (simp add: slice_last_def)

lemma set_slice_last: "set (slice_last n xs) \<subseteq> set xs"
  by (auto simp: slice_last_def dest: in_set_dropD)

text \<open>What a prune without an age limit retains: nothing is rewritten within the limit.\<close>

lemma prune_retained_no_age:
  assumes "or_zero (maxAgeDays opts) \<le> 0"
  shows "prune_retained now opts raw =
           (if or_zero (maxMessages opts) \<le> 0 \<or> int (length raw) \<le> or_zero (maxMessages opts)
            then None
            else Some (if int (length (deduplicateMessages raw)) > or_zero (maxMessages opts)
                       then slice_last (or_zero (maxMessages opts)) (deduplicateMessages raw)
                       else deduplicateMessages raw))"
proof -
  let ?N = "or_zero (maxMessages opts)"
  let ?d = "deduplicateMessages raw"
  show ?thesis
  proof (cases "?N \<le> 0 \<or> int (length raw) \<le> ?N")
    case True
    with assms show ?thesis by (auto simp: prune_retained_def Let_def)
  next
    case False
    then have N: "0 < ?N" and big: "?N < int (length raw)" by auto
    have "length (if int (length ?d) > ?N then slice_last ?N ?d else ?d) < length raw"
    proof (cases "int (length ?d) > ?N")
      case True
      with N big show ?thesis by (simp add: length_slice_last)
    next
      case False
      with big show ?thesis by simp
    qed
    moreover from N big have "raw \<noteq> []" by auto
    ultimately show ?thesis using False assms N big
      by (simp add: prune_retained_def Let_def)
  qed
qed

text \<open>
  C9. Without an age limit (\<open>maxAgeDays\<close> unset or \<open>\<le> 0\<close>), when the log has at most
  \<open>maxMessages\<close> parsed records, \<open>maybePruneChatMessages\<close> returns before any write:
  the log file and the metadata are unchanged, whatever deduplication would remove.
\<close>

theorem prune_within_limit_unchanged:
  assumes "or_zero (maxAgeDays opts) \<le> 0"
    and "int (length (readJsonl parse (messages_file s))) \<le> or_zero (maxMessages opts)"
  shows "prune_retained now opts (readJsonl parse (messages_file s)) = None \<and>
         maybePruneChatMessages parse stringify parse_meta stringify_meta now opts s = s"
proof -
  have "prune_retained now opts (readJsonl parse (messages_file s)) = None"
    using assms(2) by (simp add: prune_retained_no_age[OF assms(1)])
  then show ?thesis by (simp add: maybePruneChatMessages_def)
qed

lemma sample_deleted_log_read:
  "readJsonl sample_parse (messages_file sample_deleted_chat)
     = [sample_new, sample_edited, sample_marker]"
proof -
  have ok: "codec_ok sample_parse sample_stringify [sample_new, sample_edited, sample_marker]"
    by (rule codec_ok_subset[OF sample_codec_ok]) simp
  show ?thesis
    unfolding sample_deleted_chat_def chat_store.simps
    using readJsonl_appends[OF ok, of None]
    by (simp only: readJsonl_missing terminated_def option.case append_Nil)
qed

lemma dedup_sample_all_deleted:
  "deduplicateMessages [sample_new, sample_edited, sample_marker] = []"
  by (simp add: deduplicateMessages_def collect_deleted_def add_deleted_def set_by_id_def
      toSorted_def sample_fields)

text \<open>
  On the sample chat that holds a message, its edit and the marker deleting it: the
  canonical view is empty, yet a prune with \<open>maxMessages = 3\<close> leaves all three records.
\<close>

theorem prune_within_limit_unchanged_witness:
  "or_zero (maxAgeDays \<lparr>maxMessages = Some 3, maxAgeDays = None\<rparr>) \<le> 0 \<and>
   int (length (readJsonl sample_parse (messages_file sample_deleted_chat)))
     \<le> or_zero (maxMessages \<lparr>maxMessages = Some 3, maxAgeDays = None\<rparr>) \<and>
   length (deduplicateMessages (readJsonl sample_parse (messages_file sample_deleted_chat)))
     < length (readJsonl sample_parse (messages_file sample_deleted_chat)) \<and>
   maybePruneChatMessages sample_parse sample_stringify sample_parse_meta sample_stringify_meta
     0 \<lparr>maxMessages = Some 3, maxAgeDays = None\<rparr> sample_deleted_chat = sample_deleted_chat"
proof -
  let ?opts = "\<lparr>maxMessages = Some (3::int), maxAgeDays = None\<rparr>"
  have a: "or_zero (maxAgeDays ?opts) \<le> 0" by (simp add: or_zero_def)
  have b: "int (length (readJsonl sample_parse (messages_file sample_deleted_chat)))
             \<le> or_zero (maxMessages ?opts)"
    by (simp add: sample_deleted_log_read or_zero_def)
  have c: "length (deduplicateMessages (readJsonl sample_parse (messages_file sample_deleted_chat)))
     < length (readJsonl sample_parse (messages_file sample_deleted_chat))"
    by (simp add: sample_deleted_log_read dedup_sample_all_deleted)
  from prune_within_limit_unchanged[OF a b]
  have d: "maybePruneChatMessages sample_parse sample_stringify sample_parse_meta
      sample_stringify_meta 0 ?opts sample_deleted_chat = sample_deleted_chat"
    by blast
  show ?thesis by (rule conjI[OF a conjI[OF b conjI[OF c d]]])
qed


lemma sample_chat_read:
  "readJsonl sample_parse (messages_file sample_chat) = [sample_new, sample_edited, sample_second]"
  unfolding sample_chat_def chat_store.simps by (rule sample_log_read)

lemma sample_chat_codec: "codec_ok sample_parse sample_stringify (readJsonl sample_parse (messages_file sample_chat))"
  unfolding sample_chat_read by (rule codec_ok_subset[OF sample_codec_ok]) simp

lemma prune_rewrites_log:
  assumes "prune_retained now opts (readJsonl parse (messages_file s)) = Some ms"
    and "codec_ok parse stringify ms"
  shows "readJsonl parse (messages_file
           (maybePruneChatMessages parse stringify parse_meta stringify_meta now opts s)) = ms"
  using assms by (simp add: maybePruneChatMessages_def readJsonl_rewritten)

text \<open>
  C3, as amended. Pruning with \<open>maxMessages = N\<close> and no age limit a log that holds more
  than \<open>N > 0\<close> parsed records leaves exactly \<open>min(N, canonical_count)\<close> records; a log
  that holds at most \<open>N\<close> records is left unchanged. A second prune with the same
  parameters does not write and changes nothing, and the log is rewritten only when
  fewer records are retained than the raw log holds.
\<close>

theorem prune_count_amended:
  assumes "codec_ok parse stringify (readJsonl parse (messages_file s))"
  shows "let opts = \<lparr>maxMessages = Some N, maxAgeDays = None\<rparr>;
             raw = readJsonl parse (messages_file s);
             s' = maybePruneChatMessages parse stringify parse_meta stringify_meta now opts s
         in (0 < N \<and> N < int (length raw)
               \<longrightarrow> length (readJsonl parse (messages_file s'))
                     = min (nat N) (length (deduplicateMessages raw))) \<and>
            (N \<le> 0 \<or> int (length raw) \<le> N \<longrightarrow> s' = s) \<and>
            prune_retained now' opts (readJsonl parse (messages_file s')) = None \<and>
            maybePruneChatMessages parse stringify parse_meta stringify_meta now' opts s' = s' \<and>
            (\<forall>ms. prune_retained now opts raw = Some ms \<longrightarrow> length ms < length raw)"
proof -
  let ?opts = "\<lparr>maxMessages = Some N, maxAgeDays = None\<rparr>"
  let ?raw = "readJsonl parse (messages_file s)"
  let ?d = "deduplicateMessages ?raw"
  let ?s' = "maybePruneChatMessages parse stringify parse_meta stringify_meta now ?opts s"
  let ?r = "if int (length ?d) > N then slice_last N ?d else ?d"
  have age: "or_zero (maxAgeDays ?opts) \<le> 0" and lim: "or_zero (maxMessages ?opts) = N"
    by (simp_all add: or_zero_def)
  note retained = prune_retained_no_age[OF age, unfolded lim]
  have small: "?s' = s" if "N \<le> 0 \<or> int (length ?raw) \<le> N"
    using that by (simp add: maybePruneChatMessages_def retained)
  have big: "readJsonl parse (messages_file ?s') = ?r \<and> int (length ?r) \<le> N \<and>
             length ?r = min (nat N) (length ?d) \<and> length ?r < length ?raw"
    if b: "0 < N \<and> N < int (length ?raw)"
  proof -
    from b have pr: "prune_retained now ?opts ?raw = Some ?r" by (simp add: retained)
    have "set ?r \<subseteq> set ?raw"
      using set_slice_last[of N ?d] dedup_subset[of ?raw] by auto
    with assms have ok: "codec_ok parse stringify ?r" by (rule codec_ok_subset)
    have rd: "readJsonl parse (messages_file ?s') = ?r"
      by (rule prune_rewrites_log[OF pr ok])
    have len: "length ?r = min (nat N) (length ?d)"
      using b by (auto simp: length_slice_last)
    have "length ?d \<le> length ?raw" by (rule dedup_length)
    with len b have "int (length ?r) \<le> N" and "length ?r < length ?raw" by auto
    with rd len show ?thesis by simp
  qed
  have 1: "0 < N \<and> N < int (length ?raw)
             \<longrightarrow> length (readJsonl parse (messages_file ?s')) = min (nat N) (length ?d)"
    using big by simp
  have 2: "N \<le> 0 \<or> int (length ?raw) \<le> N \<longrightarrow> ?s' = s"
    using small by simp
  have 3: "prune_retained now' ?opts (readJsonl parse (messages_file ?s')) = None"
  proof (cases "0 < N \<and> N < int (length ?raw)")
    case True
    from big[OF True] show ?thesis
      by (simp add: prune_retained_no_age[OF age, unfolded lim])
  next
    case False
    then have "N \<le> 0 \<or> int (length ?raw) \<le> N" by auto
    then show ?thesis by (auto simp: small prune_retained_no_age[OF age, unfolded lim])
  qed
  then have 4: "maybePruneChatMessages parse stringify parse_meta stringify_meta now' ?opts ?s' = ?s'"
    by (simp add: maybePruneChatMessages_def)
  have 5: "\<forall>ms. prune_retained now ?opts ?raw = Some ms \<longrightarrow> length ms < length ?raw"
  proof (intro allI impI)
    fix ms assume ms: "prune_retained now ?opts ?raw = Some ms"
    then have b: "0 < N \<and> N < int (length ?raw)"
      by (auto simp: retained split: if_splits)
    with ms have "ms = ?r" by (simp add: retained)
    with big[OF b] show "length ms < length ?raw" by simp
  qed
  show ?thesis unfolding Let_def using 1 2 3 4 5 by blast
qed

text \<open>
  On the sample chat (three raw records, two canonical ones): \<open>maxMessages = 1\<close> leaves
  one record, \<open>maxMessages = 5\<close> leaves the chat as it is.
\<close>

theorem prune_count_amended_witness:
  "codec_ok sample_parse sample_stringify (readJsonl sample_parse (messages_file sample_chat)) \<and>
   length (readJsonl sample_parse (messages_file sample_chat)) = 3 \<and>
   length (deduplicateMessages (readJsonl sample_parse (messages_file sample_chat))) = 2 \<and>
   length (readJsonl sample_parse (messages_file
      (maybePruneChatMessages sample_parse sample_stringify sample_parse_meta sample_stringify_meta
         0 \<lparr>maxMessages = Some 1, maxAgeDays = None\<rparr> sample_chat))) = 1 \<and>
   maybePruneChatMessages sample_parse sample_stringify sample_parse_meta sample_stringify_meta
         0 \<lparr>maxMessages = Some 5, maxAgeDays = None\<rparr> sample_chat = sample_chat"
proof -
  have raw: "length (readJsonl sample_parse (messages_file sample_chat)) = 3"
    by (simp add: sample_chat_read)
  have can: "length (deduplicateMessages (readJsonl sample_parse (messages_file sample_chat))) = 2"
    by (simp add: sample_chat_read dedup_sample_edits)
  from prune_count_amended[OF sample_chat_codec, of 1 sample_parse_meta sample_stringify_meta 0]
  have "0 < (1::int) \<and> 1 < int (length (readJsonl sample_parse (messages_file sample_chat)))
      \<longrightarrow> length (readJsonl sample_parse (messages_file
      (maybePruneChatMessages sample_parse sample_stringify sample_parse_meta sample_stringify_meta
         0 \<lparr>maxMessages = Some 1, maxAgeDays = None\<rparr> sample_chat)))
        = min (nat 1) (length (deduplicateMessages (readJsonl sample_parse (messages_file sample_chat))))"
    unfolding Let_def by blast
  then have one: "length (readJsonl sample_parse (messages_file
      (maybePruneChatMessages sample_parse sample_stringify sample_parse_meta sample_stringify_meta
         0 \<lparr>maxMessages = Some 1, maxAgeDays = None\<rparr> sample_chat))) = 1"
    by (simp only: raw can) simp
  from prune_count_amended[OF sample_chat_codec, of 5 sample_parse_meta sample_stringify_meta 0]
  have "5 \<le> (0::int) \<or> int (length (readJsonl sample_parse (messages_file sample_chat))) \<le> 5
      \<longrightarrow> maybePruneChatMessages sample_parse sample_stringify sample_parse_meta sample_stringify_meta
         0 \<lparr>maxMessages = Some 5, maxAgeDays = None\<rparr> sample_chat = sample_chat"
    unfolding Let_def by blast
  then have same: "maybePruneChatMessages sample_parse sample_stringify sample_parse_meta
      sample_stringify_meta 0 \<lparr>maxMessages = Some 5, maxAgeDays = None\<rparr> sample_chat = sample_chat"
    by (simp only: raw) simp
  show ?thesis
    by (rule conjI[OF sample_chat_codec conjI[OF raw conjI[OF can conjI[OF one same]]]])
qed

text \<open>
  C3 as stated fails: with \<open>maxMessages = 5\<close> the sample log keeps its three records,
  while \<open>min(5, canonical_count)\<close> is two.
\<close>

theorem prune_count_counterexample:
  "length (readJsonl sample_parse (messages_file
      (maybePruneChatMessages sample_parse sample_stringify sample_parse_meta sample_stringify_meta
         0 \<lparr>maxMessages = Some 5, maxAgeDays = None\<rparr> sample_chat))) = 3 \<and>
   min 5 (length (deduplicateMessages (readJsonl sample_parse (messages_file sample_chat)))) = 2"
proof -
  have age: "or_zero (maxAgeDays \<lparr>maxMessages = Some 5, maxAgeDays = None\<rparr>) \<le> 0"
    by (simp add: or_zero_def)
  have "prune_retained 0 \<lparr>maxMessages = Some 5, maxAgeDays = None\<rparr>
          (readJsonl sample_parse (messages_file sample_chat)) = None"
    by (simp add: prune_retained_no_age[OF age] sample_chat_read or_zero_def)
  then have "maybePruneChatMessages sample_parse sample_stringify sample_parse_meta
      sample_stringify_meta 0 \<lparr>maxMessages = Some 5, maxAgeDays = None\<rparr> sample_chat = sample_chat"
    by (simp add: maybePruneChatMessages_def)
  then show ?thesis by (simp add: sample_chat_read dedup_sample_edits)
qed


subsection \<open>Search\<close>

lemma includes_sublist: "string_includes t q \<longleftrightarrow> sublist q t"
  by (induction t) (simp_all add: sublist_Cons_right)

lemma take_take_append: "take n (take n xs @ ys) = take n (xs @ ys)"
  by (cases "n \<le> length xs") (simp_all add: min_def)

lemma search_messages_take:
  "int (length results) \<le> lim \<Longrightarrow>
     search_messages toLowerCase lowerQuery lim cid ms results
       = take (nat lim)
           (results @ map (\<lambda>m. (m, cid))
              (filter (\<lambda>m. string_includes (toLowerCase (searchable_text m)) lowerQuery) ms))"
proof (induction ms arbitrary: results)
  case Nil
  then show ?case by simp
next
  case (Cons m ms)
  show ?case
  proof (cases "int (length results) \<ge> lim")
    case True
    with Cons.prems have "length results = nat lim" by simp
    with True show ?thesis by simp
  next
    case False
    then have lt: "int (length results) < lim" by simp
    show ?thesis
    proof (cases "string_includes (toLowerCase (searchable_text m)) lowerQuery")
      case True
      from lt have "int (length (results @ [(m, cid)])) \<le> lim" by simp
      from Cons.IH[OF this] True False show ?thesis by simp
    next
      case no: False
      from Cons.IH[OF Cons.prems] no False show ?thesis by simp
    qed
  qed
qed

lemma search_chats_take:
  "int (length results) \<le> lim \<Longrightarrow>
     search_chats toLowerCase parse files (toLowerCase query) lim cids results
       = take (nat lim) (results @ concat (map (chat_hits toLowerCase parse files query) cids))"
proof (induction cids arbitrary: results)
  case Nil
  then show ?case by simp
next
  case (Cons cid cids)
  show ?case
  proof (cases "int (length results) \<ge> lim")
    case True
    with Cons.prems have "length results = nat lim" by simp
    with True show ?thesis by simp
  next
    case False
    let ?inner = "search_messages toLowerCase (toLowerCase query) lim cid
                    (deduplicateMessages (readJsonl parse (files cid))) results"
    have hit: "(\<lambda>m. string_includes (toLowerCase (searchable_text m)) (toLowerCase query))
                 = contains_query toLowerCase query"
      by (simp add: fun_eq_iff contains_query_def includes_sublist)
    have inner: "?inner = take (nat lim) (results @ chat_hits toLowerCase parse files query cid)"
      unfolding chat_hits_def hit[symmetric] by (rule search_messages_take[OF Cons.prems])
    from False have "0 \<le> lim" by simp
    then have "int (length ?inner) \<le> lim" unfolding inner by simp
    from Cons.IH[OF this]
    have "search_chats toLowerCase parse files (toLowerCase query) lim cids ?inner
            = take (nat lim) (?inner @ concat (map (chat_hits toLowerCase parse files query) cids))" .
    also have "\<dots> = take (nat lim) (take (nat lim) (results @ chat_hits toLowerCase parse files query cid)
                    @ concat (map (chat_hits toLowerCase parse files query) cids))"
      by (simp only: inner)
    also have "\<dots> = take (nat lim) ((results @ chat_hits toLowerCase parse files query cid)
                    @ concat (map (chat_hits toLowerCase parse files query) cids))"
      by (rule take_take_append)
    finally have rest: "search_chats toLowerCase parse files (toLowerCase query) lim cids ?inner
            = take (nat lim) (results @ concat (map (chat_hits toLowerCase parse files query) (cid # cids)))"
      by simp
    have "search_chats toLowerCase parse files (toLowerCase query) lim (cid # cids) results
            = search_chats toLowerCase parse files (toLowerCase query) lim cids ?inner"
      using False by (simp only: search_chats.simps if_False)
    with rest show ?thesis by (simp only:)
  qed
qed

lemma search_chats_nothing:
  "lim \<le> 0 \<Longrightarrow> search_chats toLowerCase parse files lowerQuery lim cids [] = []"
  by (cases cids) simp_all

lemma search_as_take:
  "searchBusinessMessages toLowerCase parse toNumber entries files query opts =
     (case search_chat_ids toNumber entries opts of
        None \<Rightarrow> []
      | Some chatIds \<Rightarrow>
          take (nat (search_limit opts))
            (concat (map (chat_hits toLowerCase parse files query) chatIds)))"
proof (cases "search_chat_ids toNumber entries opts")
  case None
  then show ?thesis by (simp add: searchBusinessMessages_def)
next
  case (Some chatIds)
  have "search_chats toLowerCase parse files (toLowerCase query) (search_limit opts) chatIds []
          = take (nat (search_limit opts)) (concat (map (chat_hits toLowerCase parse files query) chatIds))"
  proof (cases "0 \<le> search_limit opts")
    case True
    then show ?thesis using search_chats_take[of "[]" "search_limit opts"] by simp
  next
    case False
    then show ?thesis by (simp add: search_chats_nothing)
  qed
  with Some show ?thesis
    by (simp add: searchBusinessMessages_def search_limit_def Let_def)
qed

lemma chat_hits_sorted:
  "sorted_wrt canonical_before (map fst (chat_hits toLowerCase parse files query cid))"
proof -
  have "map fst (chat_hits toLowerCase parse files query cid)
          = filter (contains_query toLowerCase query)
              (deduplicateMessages (readJsonl parse (files cid)))"
    by (simp add: chat_hits_def comp_def)
  then show ?thesis by (simp only: sorted_wrt_filter[OF dedup_sorted])
qed

lemma chat_hits_set:
  "set (chat_hits toLowerCase parse files query cid)
     = (\<lambda>m. (m, cid)) ` {m \<in> set (deduplicateMessages (readJsonl parse (files cid))).
                              contains_query toLowerCase query m}"
  by (auto simp: chat_hits_def)

text \<open>
  C6. \<open>searchBusinessMessages\<close> returns at most \<open>limit\<close> results (none for a limit
  \<open>\<le> 0\<close>); the text of every result, or its caption when the text is absent, contains
  the query when both are lower-cased; and the results are the first \<open>limit\<close> hits in
  the order of the chat ids enumerated and, within a chat, in canonical order: the hits
  of a chat are its canonical messages that contain the query, in ascending
  \<open>(date, messageId)\<close> order. When the \<open>chats\<close> directory cannot be listed the result
  is empty.
\<close>

theorem search_bounded_matches_in_order:
  "let lim = search_limit opts;
       res = searchBusinessMessages toLowerCase parse toNumber entries files query opts
   in (0 \<le> lim \<longrightarrow> int (length res) \<le> lim) \<and> (lim \<le> 0 \<longrightarrow> res = []) \<and>
      (\<forall>(m, cid)\<in>set res. contains_query toLowerCase query m) \<and>
      (\<forall>chatIds. search_chat_ids toNumber entries opts = Some chatIds \<longrightarrow>
         res = take (nat lim) (concat (map (chat_hits toLowerCase parse files query) chatIds))) \<and>
      (search_chat_ids toNumber entries opts = None \<longrightarrow> res = []) \<and>
      (\<forall>cid. sorted_wrt canonical_before (map fst (chat_hits toLowerCase parse files query cid)) \<and>
             set (chat_hits toLowerCase parse files query cid)
               = (\<lambda>m. (m, cid)) ` {m \<in> set (deduplicateMessages (readJsonl parse (files cid))).
                                        contains_query toLowerCase query m})"
proof -
  let ?lim = "search_limit opts"
  let ?res = "searchBusinessMessages toLowerCase parse toNumber entries files query opts"
  have 1: "0 \<le> ?lim \<longrightarrow> int (length ?res) \<le> ?lim"
    by (auto simp: search_as_take split: option.splits)
  have 2: "?lim \<le> 0 \<longrightarrow> ?res = []"
    by (auto simp: search_as_take split: option.splits)
  have 3: "\<forall>(m, cid)\<in>set ?res. contains_query toLowerCase query m"
  proof (cases "search_chat_ids toNumber entries opts")
    case None
    then show ?thesis by (simp add: search_as_take)
  next
    case (Some chatIds)
    have "set ?res \<subseteq> set (concat (map (chat_hits toLowerCase parse files query) chatIds))"
      unfolding search_as_take Some option.case by (rule set_take_subset)
    then show ?thesis by (auto simp: chat_hits_def)
  qed
  have 4: "\<forall>chatIds. search_chat_ids toNumber entries opts = Some chatIds \<longrightarrow>
         ?res = take (nat ?lim) (concat (map (chat_hits toLowerCase parse files query) chatIds))"
    by (simp add: search_as_take)
  have 5: "search_chat_ids toNumber entries opts = None \<longrightarrow> ?res = []"
    by (simp add: search_as_take)
  have 6: "\<forall>cid. sorted_wrt canonical_before (map fst (chat_hits toLowerCase parse files query cid)) \<and>
             set (chat_hits toLowerCase parse files query cid)
               = (\<lambda>m. (m, cid)) ` {m \<in> set (deduplicateMessages (readJsonl parse (files cid))).
                                        contains_query toLowerCase query m}"
    using chat_hits_sorted chat_hits_set by blast
  show ?thesis unfolding Let_def using 1 2 3 4 5 6 by blast
qed

lemma sample_contains:
  "contains_query sample_lower ''Abc'' sample_second"
  "\<not> contains_query sample_lower ''Abc'' sample_edited"
  by (simp_all add: contains_query_def includes_sublist[symmetric] sample_lower_def
      searchable_text_def sample_second_def sample_edited_def sample_message_def)

lemma sample_hits:
  "chat_hits sample_lower sample_parse sample_files ''Abc'' 42 = [(sample_second, 42)]"
  "chat_hits sample_lower sample_parse sample_files ''Abc'' 43 = [(sample_second, 43)]"
  by (simp_all add: chat_hits_def sample_files_def sample_chat_read dedup_sample_edits
      sample_contains)

lemma unordered_read:
  "readJsonl unordered_parse (unordered_files 44) = [sample_late, sample_early]"
  by (simp add: unordered_files_def readJsonl_def newline_def trim_def is_ws_def unordered_parse_def)

lemma unordered_fields:
  "messageId sample_late = 5" "messageId sample_early = 4"
  "date sample_late = 300" "date sample_early = 200"
  "event sample_late = New" "event sample_early = New"
  by (simp_all add: sample_late_def sample_early_def sample_message_def)

lemma dedup_unordered:
  "deduplicateMessages [sample_late, sample_early] = [sample_early, sample_late]"
  by (simp add: deduplicateMessages_def collect_deleted_def add_deleted_def set_by_id_def
      toSorted_def compare_messages_def unordered_fields)

lemma unordered_contains:
  "contains_query sample_lower ''Abc'' sample_late"
  "contains_query sample_lower ''Abc'' sample_early"
  by (simp_all add: contains_query_def includes_sublist[symmetric] sample_lower_def
      searchable_text_def sample_late_def sample_early_def sample_message_def)

lemma unordered_hits:
  "chat_hits sample_lower unordered_parse unordered_files ''Abc'' 44
     = [(sample_early, 44), (sample_late, 44)]"
  by (simp add: chat_hits_def unordered_read dedup_unordered unordered_contains)

text \<open>
  On two sample chats listed next to an entry that is not a number: the query \<open>Abc\<close>
  hits \<open>Hello ABC\<close> in both; limit 1 stops after the hit of the first chat, the
  default limit returns both in enumeration order. On a chat whose log holds the later
  message first, the hits come in canonical order, not in append order.
\<close>

theorem search_bounded_matches_in_order_witness:
  "search_chat_ids sample_number (Some [''42'', ''tmp'', ''43''])
     (Some \<lparr>so_chatId = None, so_limit = Some 1\<rparr>) = Some [42, 43] \<and>
   search_limit (Some \<lparr>so_chatId = None, so_limit = Some 1\<rparr>) = 1 \<and>
   searchBusinessMessages sample_lower sample_parse sample_number (Some [''42'', ''tmp'', ''43''])
     sample_files ''Abc'' (Some \<lparr>so_chatId = None, so_limit = Some 1\<rparr>) = [(sample_second, 42)] \<and>
   search_limit None = 20 \<and>
   searchBusinessMessages sample_lower sample_parse sample_number (Some [''42'', ''tmp'', ''43''])
     sample_files ''Abc'' None = [(sample_second, 42), (sample_second, 43)] \<and>
   contains_query sample_lower ''Abc'' sample_second \<and>
   readJsonl unordered_parse (unordered_files 44) = [sample_late, sample_early] \<and>
   searchBusinessMessages sample_lower unordered_parse sample_number None unordered_files ''Abc''
     (Some \<lparr>so_chatId = Some 44, so_limit = None\<rparr>) = [(sample_early, 44), (sample_late, 44)] \<and>
   sorted_wrt canonical_before [sample_early, sample_late]"
proof -
  let ?entries = "Some [''42'', ''tmp'', ''43'']"
  let ?opts = "Some \<lparr>so_chatId = None, so_limit = Some (1::int)\<rparr>"
  let ?one = "Some \<lparr>so_chatId = Some (44::int), so_limit = None\<rparr>"
  have ids: "search_chat_ids sample_number ?entries ?opts = Some [42, 43]"
    by (simp add: search_chat_ids_def sample_number_def)
  have ids0: "search_chat_ids sample_number ?entries None = Some [42, 43]"
    by (simp add: search_chat_ids_def sample_number_def)
  have ids1: "search_chat_ids sample_number None ?one = Some [44]"
    by (simp add: search_chat_ids_def)
  have l: "search_limit ?opts = 1" and l0: "search_limit None = 20"
    and l1: "search_limit ?one = 20"
    by (simp_all add: search_limit_def)
  from search_bounded_matches_in_order[of ?opts sample_lower sample_parse sample_number ?entries
      sample_files "''Abc''"] ids
  have "searchBusinessMessages sample_lower sample_parse sample_number ?entries sample_files ''Abc'' ?opts
          = take (nat (search_limit ?opts))
              (concat (map (chat_hits sample_lower sample_parse sample_files ''Abc'') [42, 43]))"
    unfolding Let_def by blast
  then have r: "searchBusinessMessages sample_lower sample_parse sample_number ?entries sample_files
      ''Abc'' ?opts = [(sample_second, 42)]"
    by (simp only: l) (simp add: sample_hits)
  from search_bounded_matches_in_order[of None sample_lower sample_parse sample_number ?entries
      sample_files "''Abc''"] ids0
  have "searchBusinessMessages sample_lower sample_parse sample_number ?entries sample_files ''Abc'' None
          = take (nat (search_limit None))
              (concat (map (chat_hits sample_lower sample_parse sample_files ''Abc'') [42, 43]))"
    unfolding Let_def by blast
  then have r0: "searchBusinessMessages sample_lower sample_parse sample_number ?entries sample_files
      ''Abc'' None = [(sample_second, 42), (sample_second, 43)]"
    by (simp only: l0) (simp add: sample_hits)
  note inst = search_bounded_matches_in_order[of ?one sample_lower unordered_parse sample_number None
      unordered_files "''Abc''", unfolded Let_def]
  from inst ids1
  have "searchBusinessMessages sample_lower unordered_parse sample_number None unordered_files ''Abc'' ?one
          = take (nat (search_limit ?one))
              (concat (map (chat_hits sample_lower unordered_parse unordered_files ''Abc'') [44]))"
    by blast
  then have r1: "searchBusinessMessages sample_lower unordered_parse sample_number None
      unordered_files ''Abc'' ?one = [(sample_early, 44), (sample_late, 44)]"
    by (simp only: l1) (simp add: unordered_hits)
  from inst
  have "sorted_wrt canonical_before
          (map fst (chat_hits sample_lower unordered_parse unordered_files ''Abc'' 44))"
    by blast
  then have s: "sorted_wrt canonical_before [sample_early, sample_late]"
    by (simp add: unordered_hits)
  show ?thesis
    by (rule conjI[OF ids conjI[OF l conjI[OF r conjI[OF l0 conjI[OF r0
          conjI[OF sample_contains(1) conjI[OF unordered_read conjI[OF r1 s]]]]]]]])
qed

subsection \<open>Connection registry\<close>

lemma best_connection_sound:
  "best_connection b cs = Some c \<Longrightarrow>
     (b = Some c \<or> c \<in> set (filter isEnabled cs)) \<and>
     (\<forall>d\<in>set (filter isEnabled cs). updatedAt d \<le> updatedAt c) \<and>
     (\<forall>b'. b = Some b' \<longrightarrow> updatedAt b' \<le> updatedAt c)"
proof (induction cs arbitrary: b)
  case Nil
  then show ?case by simp
next
  case (Cons x xs)
  show ?case
  proof (cases "isEnabled x")
    case False
    with Cons show ?thesis by simp
  next
    case True
    show ?thesis
    proof (cases b)
      case None
      with True Cons.prems have "best_connection (Some x) xs = Some c" by simp
      from Cons.IH[OF this] None True show ?thesis by auto
    next
      case (Some b')
      show ?thesis
      proof (cases "updatedAt x > updatedAt b'")
        case gt: True
        with True Some Cons.prems have "best_connection (Some x) xs = Some c" by simp
        from Cons.IH[OF this] Some True gt show ?thesis by auto
      next
        case le: False
        with True Some Cons.prems have "best_connection (Some b') xs = Some c" by simp
        from Cons.IH[OF this] Some True le show ?thesis by auto
      qed
    qed
  qed
qed

lemma best_connection_Some_start: "\<exists>c. best_connection (Some b) cs = Some c"
  by (induction cs arbitrary: b) (auto split: option.splits)

lemma best_connection_none_iff:
  "best_connection None cs = None \<longleftrightarrow> filter isEnabled cs = []"
proof (induction cs)
  case Nil
  then show ?case by simp
next
  case (Cons x xs)
  then show ?case using best_connection_Some_start[of x xs] by auto
qed

text \<open>
  C7. \<open>getActiveBusinessConnectionId\<close> returns \<open>undefined\<close> when the loaded store has no
  enabled connection; otherwise it returns the id of an enabled connection whose
  \<open>updatedAt\<close> no enabled connection exceeds. Disabled connections do not take part,
  whatever their \<open>updatedAt\<close>.
\<close>

theorem active_connection_greatest:
  "let enabled = filter isEnabled (object_values (connections (loadBusinessConnections parse_store file)))
   in (enabled = [] \<longrightarrow> getActiveBusinessConnectionId parse_store file = None) \<and>
      (enabled \<noteq> [] \<longrightarrow>
         (\<exists>c\<in>set enabled. getActiveBusinessConnectionId parse_store file = Some (conn_id c) \<and>
            (\<forall>d\<in>set enabled. updatedAt d \<le> updatedAt c)))"
proof -
  define cs where "cs = object_values (connections (loadBusinessConnections parse_store file))"
  have ga: "getActiveBusinessConnectionId parse_store file = map_option conn_id (best_connection None cs)"
    by (simp add: getActiveBusinessConnectionId_def cs_def)
  have none: "filter isEnabled cs = [] \<longrightarrow> getActiveBusinessConnectionId parse_store file = None"
    using best_connection_none_iff[of cs] by (simp add: ga)
  have some: "filter isEnabled cs \<noteq> [] \<longrightarrow>
         (\<exists>c\<in>set (filter isEnabled cs). getActiveBusinessConnectionId parse_store file = Some (conn_id c) \<and>
            (\<forall>d\<in>set (filter isEnabled cs). updatedAt d \<le> updatedAt c))"
  proof
    assume ne: "filter isEnabled cs \<noteq> []"
    then obtain c where c: "best_connection None cs = Some c"
      using best_connection_none_iff[of cs] by auto
    from best_connection_sound[OF c] have "c \<in> set (filter isEnabled cs)"
      and "\<forall>d\<in>set (filter isEnabled cs). updatedAt d \<le> updatedAt c" by auto
    with c show "\<exists>c\<in>set (filter isEnabled cs). getActiveBusinessConnectionId parse_store file = Some (conn_id c) \<and>
            (\<forall>d\<in>set (filter isEnabled cs). updatedAt d \<le> updatedAt c)"
      by (auto simp: ga)
  qed
  show ?thesis unfolding Let_def cs_def[symmetric] using none some by blast
qed

lemma load_sample: "loadBusinessConnections sample_parse_store (Some ''store'') = sample_store"
  by (simp add: loadBusinessConnections_def sample_parse_store_def sample_store_def)

text \<open>
  The scenario of the specification: enabled connections updated at 100 and 200, and a
  disabled one updated at 300; the active connection is the one updated at 200.
\<close>

theorem active_connection_greatest_witness:
  "filter isEnabled (object_values (connections (loadBusinessConnections sample_parse_store (Some ''store''))))
     = [conn ''a'' True 100, conn ''b'' True 200] \<and>
   getActiveBusinessConnectionId sample_parse_store (Some ''store'') = Some ''b''"
proof -
  have enabled: "filter isEnabled (object_values (connections (loadBusinessConnections sample_parse_store (Some ''store''))))
     = [conn ''a'' True 100, conn ''b'' True 200]"
    by (simp add: load_sample) (simp add: sample_store_def conn_def)
  from active_connection_greatest[of sample_parse_store "Some ''store''"]
  have "\<exists>c\<in>set [conn ''a'' True 100, conn ''b'' True 200].
          getActiveBusinessConnectionId sample_parse_store (Some ''store'') = Some (conn_id c) \<and>
          (\<forall>d\<in>set [conn ''a'' True 100, conn ''b'' True 200]. updatedAt d \<le> updatedAt c)"
    unfolding Let_def enabled by simp
  then have "getActiveBusinessConnectionId sample_parse_store (Some ''store'') = Some ''b''"
    by (auto simp: conn_def)
  with enabled show ?thesis by simp
qed

text \<open>
  C8, as amended. \<open>loadBusinessConnections\<close> always returns a store whose version is
  \<open>1\<close>. It returns the empty store when the file is missing, when parsing throws, when
  the version is not \<open>1\<close>, or when the \<open>connections\<close> value is absent or falsy; a
  version-1 document with any truthy \<open>connections\<close> value is returned as parsed.
\<close>

theorem load_connections_amended:
  "version (loadBusinessConnections parse_store file) = JNum 1 \<and>
   ((file = None \<or> (\<exists>raw. file = Some raw \<and> (parse_store raw = None \<or>
        (\<exists>p. parse_store raw = Some p \<and>
           (version p \<noteq> JNum 1 \<or> \<not> truthy_connections (connections p))))))
      \<longrightarrow> loadBusinessConnections parse_store file = empty_store) \<and>
   (\<forall>raw p. file = Some raw \<and> parse_store raw = Some p \<and> version p = JNum 1 \<and>
        truthy_connections (connections p)
      \<longrightarrow> loadBusinessConnections parse_store file = p)"
  by (auto simp: loadBusinessConnections_def empty_store_def split: option.splits)

text \<open>
  On the sample documents: a text that does not parse gives the empty store, and the
  well-formed store is returned as parsed.
\<close>

theorem load_connections_amended_witness:
  "version (loadBusinessConnections sample_parse_store (Some ''garbage'')) = JNum 1 \<and>
   sample_parse_store ''garbage'' = None \<and>
   loadBusinessConnections sample_parse_store (Some ''garbage'') = empty_store \<and>
   sample_parse_store ''store'' = Some sample_store \<and> version sample_store = JNum 1 \<and>
   truthy_connections (connections sample_store) \<and>
   loadBusinessConnections sample_parse_store (Some ''store'') = sample_store"
  using load_connections_amended[of sample_parse_store "Some ''garbage''"]
    load_connections_amended[of sample_parse_store "Some ''store''"]
  by (simp add: sample_parse_store_def sample_store_def empty_store_def)

text \<open>
  C8 as stated fails: a version-1 document whose \<open>connections\<close> value is a non-empty
  string lacks a connections map, and is returned as it is, not replaced by the empty
  store.
\<close>

theorem load_connections_counterexample:
  "sample_parse_store ''malformed'' = Some malformed_store \<and>
   lacks_connections_map malformed_store \<and>
   loadBusinessConnections sample_parse_store (Some ''malformed'') = malformed_store \<and>
   loadBusinessConnections sample_parse_store (Some ''malformed'') \<noteq> empty_store"
  by (simp add: sample_parse_store_def malformed_store_def lacks_connections_map_def
      loadBusinessConnections_def empty_store_def)

end
